theory Spec2Isabelle
  imports Complex_Main "HOL-Library.Multiset"
begin

section \<open>holopy.fitting.mcmc: posterior summaries of MCMC sample tables\<close>

text \<open>
  The module \<^verbatim>\<open>holopy/fitting/mcmc.py\<close> is embedded function by function. Python
  exceptions are values of \<open>py_error\<close>; a function that may raise returns
  \<open>py_error + 'a\<close>. A Python float is a real number that binary64 represents;
  comparisons of floats are exact, and every arithmetic operation of the source goes
  through the record \<open>numerics\<close> below, which stands for what binary64, numpy and
  pandas compute. NaN and the infinities are outside the model.
\<close>

datatype py_error = IndexError | KeyError | ValueError | IOError

subsection \<open>UncertainValue\<close>

text \<open>
  \<^verbatim>\<open>
  def __init__(self, value, plus, minus=None, n_sigma=1):
      self.value = value; self.plus = plus; self.minus = minus; self.n_sigma = n_sigma
  \<close>
  The fields are prefixed with \<open>uv_\<close> since \<open>plus\<close> and \<open>minus\<close> are constants
  of HOL. Python's \<open>None\<close> in the field \<open>minus\<close> is \<open>None\<close> of \<open>real option\<close>.
\<close>

record UncertainValue =
  uv_value :: real
  uv_plus :: real
  uv_minus :: "real option"
  uv_n_sigma :: real

definition UncertainValue_init :: "real \<Rightarrow> real \<Rightarrow> real option \<Rightarrow> real \<Rightarrow> UncertainValue" where
  "UncertainValue_init v p m n = \<lparr>uv_value = v, uv_plus = p, uv_minus = m, uv_n_sigma = n\<rparr>"

text \<open>The two call shapes of the source: \<^verbatim>\<open>UncertainValue(v, p)\<close> leaves \<open>minus\<close> and
  \<open>n_sigma\<close> at their defaults, \<^verbatim>\<open>UncertainValue(v, p, m)\<close> leaves \<open>n_sigma\<close>.\<close>

definition UncertainValue2 :: "real \<Rightarrow> real \<Rightarrow> UncertainValue" where
  "UncertainValue2 v p = UncertainValue_init v p None 1"

definition UncertainValue3 :: "real \<Rightarrow> real \<Rightarrow> real \<Rightarrow> UncertainValue" where
  "UncertainValue3 v p m = UncertainValue_init v p (Some m) 1"

subsection \<open>Sample tables\<close>

text \<open>
  A data frame is a list of column labels and a list of rows, each with one value per
  column. The labels of a frame are distinct. \<open>_values\<close> reads a frame through two
  views of row \<open>i\<close>: \<open>d.iloc[i, :-1]\<close>, the row without its last column, and
  \<open>d.lnprob.iloc[i]\<close>, its value in the column labelled \<open>lnprob\<close>. A \<open>row\<close> holds
  the two.
\<close>

record frame =
  columns :: "string list"
  rows :: "real list list"

record row =
  pars :: "real list"
  lnprob :: real

fun index_of :: "'a \<Rightarrow> 'a list \<Rightarrow> nat option" where
  "index_of x [] = None"
| "index_of x (y # ys) = (if x = y then Some 0 else map_option Suc (index_of x ys))"

definition lnprob_rows :: "frame \<Rightarrow> nat \<Rightarrow> row list" where
  "lnprob_rows d j = map (\<lambda>r. \<lparr>pars = butlast r, lnprob = r ! j\<rparr>) (rows d)"

subsection \<open>What binary64, numpy and pandas compute\<close>

text \<open>
  \<^item> \<open>err_sub\<close>: the relative rounding error of a binary64 subtraction. The difference
    of two floats is rounded to the nearest float: it is \<open>(x - y) * (1 + e)\<close> with
    \<open>\<bar>e\<bar> \<le> 2^-53\<close> (it is exact where the result is subnormal). \<open>fsub\<close> clips
    \<open>err_sub\<close> to this bound, so that every choice of \<open>err_sub\<close> is a rounding and the
    rounding of the machine is one of them.
  \<^item> \<open>fdiv\<close>: binary64 division. \<open>log10\<close>: \<open>np.log10\<close>. \<open>pow10\<close>: \<open>np.power(10, y)\<close>.
  \<^item> \<open>interior\<close>: the points that \<open>np.linspace(start, stop, num)\<close> puts between its
    end points (argument \<open>i\<close> is the index).
  \<^item> \<open>tie_swaps\<close>: pandas sorts with an unstable quicksort, so rows of equal key come
    out in an order that the caller does not control. The order is modelled by a list
    of transpositions applied to the rows before a stable sort: every arrangement in
    descending order arises from some list, and nothing else does.
\<close>

record numerics =
  err_sub :: "real \<Rightarrow> real \<Rightarrow> real"
  fdiv :: "real \<Rightarrow> real \<Rightarrow> real"
  log10 :: "real \<Rightarrow> real"
  pow10 :: "real \<Rightarrow> real"
  interior :: "real \<Rightarrow> real \<Rightarrow> nat \<Rightarrow> nat \<Rightarrow> real"
  tie_swaps :: "row list \<Rightarrow> (nat \<times> nat) list"

definition unit_roundoff :: real where
  "unit_roundoff = 1 / 2 ^ 53"

definition fsub :: "numerics \<Rightarrow> real \<Rightarrow> real \<Rightarrow> real" where
  "fsub ar x y = (x - y) * (1 + max (- unit_roundoff) (min unit_roundoff (err_sub ar x y)))"

fun apply_swaps :: "(nat \<times> nat) list \<Rightarrow> 'a list \<Rightarrow> 'a list" where
  "apply_swaps [] xs = xs"
| "apply_swaps ((i, j) # sw) xs =
     apply_swaps sw (if i < length xs \<and> j < length xs then xs[i := xs ! j, j := xs ! i] else xs)"

text \<open>\<^verbatim>\<open>d.sort_values('lnprob', ascending=False)\<close>, on the rows as \<open>_values\<close> reads them.\<close>

definition sort_values :: "numerics \<Rightarrow> row list \<Rightarrow> row list" where
  "sort_values ar rs = sort_key (\<lambda>r. - lnprob r) (apply_swaps (tie_swaps ar rs) rs)"

text \<open>\<^verbatim>\<open>d.lnprob.max()\<close>\<close>

definition lnprob_max :: "row list \<Rightarrow> real" where
  "lnprob_max rs = Max (set (map lnprob rs))"

text \<open>
  \<^verbatim>\<open>
  i = 0
  while d.lnprob.iloc[i] > d.lnprob.max()-.5 and i < d.shape[0]:
      i+=1
  \<close>
  The left operand of \<open>and\<close> is evaluated first: \<open>iloc[i]\<close> raises IndexError once
  \<open>i\<close> has reached the number of rows. The threshold is the float that the
  subtraction gives.
\<close>

function threshold_scan :: "numerics \<Rightarrow> row list \<Rightarrow> nat \<Rightarrow> py_error + nat" where
  "threshold_scan ar rs i =
     (if length rs \<le> i then Inl IndexError
      else if lnprob (rs ! i) > fsub ar (lnprob_max rs) (1/2) \<and> i < length rs
           then threshold_scan ar rs (Suc i)
           else Inr i)"
  by pat_completeness auto
termination
  by (relation "measure (\<lambda>(ar, rs, i). length rs - i)") auto

declare threshold_scan.simps [simp del]

text \<open>
  \<^verbatim>\<open>
  def find_bound(f, i):
      b = d.iloc[0, :-1]
      while (b == mp).any() and i < d.shape[0]:
          b = f(b, d.iloc[i,:-1])
          i+=1
      return b
  \<close>
  \<open>f\<close> is \<open>np.maximum\<close> or \<open>np.minimum\<close>, applied elementwise.
\<close>

definition series_any_eq :: "real list \<Rightarrow> real list \<Rightarrow> bool" where
  "series_any_eq b mp = list_ex (\<lambda>(x, y). x = y) (zip b mp)"

function find_bound_loop ::
  "(real \<Rightarrow> real \<Rightarrow> real) \<Rightarrow> row list \<Rightarrow> real list \<Rightarrow> real list \<Rightarrow> nat \<Rightarrow> real list" where
  "find_bound_loop f rs mp b i =
     (if series_any_eq b mp \<and> i < length rs
      then find_bound_loop f rs mp (map2 f b (pars (rs ! i))) (Suc i)
      else b)"
  by pat_completeness auto
termination
  by (relation "measure (\<lambda>(f, rs, mp, b, i). length rs - i)") auto

declare find_bound_loop.simps [simp del]

definition find_bound :: "row list \<Rightarrow> real list \<Rightarrow> (real \<Rightarrow> real \<Rightarrow> real) \<Rightarrow> nat \<Rightarrow> real list" where
  "find_bound rs mp f i = find_bound_loop f rs mp (pars (rs ! 0)) i"

text \<open>\<open>s[p]\<close> on a Series: the value under the label \<open>p\<close>, KeyError without it.\<close>

definition series_get :: "string list \<Rightarrow> real list \<Rightarrow> string \<Rightarrow> py_error + real" where
  "series_get idx vals p =
     (case map_of (zip idx vals) p of None \<Rightarrow> Inl KeyError | Some v \<Rightarrow> Inr v)"

text \<open>A list comprehension whose body may raise stops at the first exception.\<close>

fun comprehension :: "('a \<Rightarrow> py_error + 'b) \<Rightarrow> 'a list \<Rightarrow> py_error + 'b list" where
  "comprehension g [] = Inr []"
| "comprehension g (x # xs) =
     (case g x of Inl e \<Rightarrow> Inl e
      | Inr y \<Rightarrow> (case comprehension g xs of Inl e \<Rightarrow> Inl e | Inr ys \<Rightarrow> Inr (y # ys)))"

text \<open>
  \<^verbatim>\<open>
  def _values(self, d):
      d = d.sort_values('lnprob', ascending=False)
      mp = d.iloc[0,:-1]
      ...
      upper = find_bound(np.maximum, i+1)
      lower = find_bound(np.minimum, i+1)
      return [UncertainValue(mp[p], upper[p]-mp[p], mp[p]-lower[p]) for p in self._names]
  \<close>
  \<open>names\<close> is \<open>self._names\<close>, the names of the model's parameters. Sorting by a
  column that the frame does not have raises KeyError. The index of the Series
  \<open>mp\<close>, \<open>upper\<close> and \<open>lower\<close> is the frame's labels without the last.
\<close>

definition uncertain_value_at ::
  "numerics \<Rightarrow> string list \<Rightarrow> real list \<Rightarrow> real list \<Rightarrow> real list \<Rightarrow> string \<Rightarrow>
     py_error + UncertainValue" where
  "uncertain_value_at ar idx mp upper lower p =
     (case series_get idx mp p of Inl e \<Rightarrow> Inl e
      | Inr m \<Rightarrow> (case series_get idx upper p of Inl e \<Rightarrow> Inl e
      | Inr u \<Rightarrow> (case series_get idx lower p of Inl e \<Rightarrow> Inl e
      | Inr l \<Rightarrow> Inr (UncertainValue3 m (fsub ar u m) (fsub ar m l)))))"

definition SamplingResult_values ::
  "numerics \<Rightarrow> string list \<Rightarrow> frame \<Rightarrow> py_error + UncertainValue list" where
  "SamplingResult_values ar names d =
     (case index_of ''lnprob'' (columns d) of
        None \<Rightarrow> Inl KeyError
      | Some j \<Rightarrow>
          (let rs = sort_values ar (lnprob_rows d j) in
           if rs = [] then Inl IndexError
           else
             let mp = pars (rs ! 0) in
             case threshold_scan ar rs 0 of
               Inl e \<Rightarrow> Inl e
             | Inr i \<Rightarrow>
                 let upper = find_bound rs mp max (i + 1);
                     lower = find_bound rs mp min (i + 1)
                 in comprehension
                      (uncertain_value_at ar (butlast (columns d)) mp upper lower) names))"

subsection \<open>The summary in closed form\<close>

text \<open>
  The accumulation loop of \<open>find_bound\<close> as a scan over the rows that remain: it goes
  on while at least one component of the bound still equals the most probable point
  (\<open>(b == mp).any()\<close>), and every step updates all components.
\<close>

fun joint_scan :: "(real \<Rightarrow> real \<Rightarrow> real) \<Rightarrow> real list \<Rightarrow> real list \<Rightarrow> row list \<Rightarrow> real list" where
  "joint_scan f mp b [] = b"
| "joint_scan f mp b (r # rs) =
     (if series_any_eq b mp then joint_scan f mp (map2 f b (pars r)) rs else b)"

text \<open>The value of a Series under a label that it has.\<close>

definition series_at :: "string list \<Rightarrow> real list \<Rightarrow> string \<Rightarrow> real" where
  "series_at idx vals p = the (map_of (zip idx vals) p)"

text \<open>The summary with threshold index \<open>k\<close> on the sorted rows \<open>rs\<close>, by the joint scan.\<close>

definition summary_joint ::
  "numerics \<Rightarrow> string list \<Rightarrow> string list \<Rightarrow> row list \<Rightarrow> nat \<Rightarrow> UncertainValue list" where
  "summary_joint ar names idx rs k =
     (let mp = pars (hd rs);
          upper = joint_scan max mp mp (drop (k + 1) rs);
          lower = joint_scan min mp mp (drop (k + 1) rs)
      in map (\<lambda>p. UncertainValue3 (series_at idx mp p)
                     (fsub ar (series_at idx upper p) (series_at idx mp p))
                     (fsub ar (series_at idx mp p) (series_at idx lower p))) names)"

text \<open>
  The summary as the specification words it (section 4.2, step 3): each parameter is
  scanned on its own, from row \<open>k + 1\<close> on, until its own accumulated bound differs
  from the most probable value or the rows are exhausted.
\<close>

fun independent_scan :: "(real \<Rightarrow> real \<Rightarrow> real) \<Rightarrow> real \<Rightarrow> real \<Rightarrow> real list \<Rightarrow> real" where
  "independent_scan f m b [] = b"
| "independent_scan f m b (v # vs) = (if b = m then independent_scan f m (f b v) vs else b)"

definition summary_independent ::
  "numerics \<Rightarrow> string list \<Rightarrow> string list \<Rightarrow> row list \<Rightarrow> nat \<Rightarrow> UncertainValue list" where
  "summary_independent ar names idx rs k =
     map (\<lambda>p. let m = series_at idx (pars (hd rs)) p;
                  col = map (\<lambda>r. series_at idx (pars r) p) (drop (k + 1) rs);
                  upper = independent_scan max m m col;
                  lower = independent_scan min m m col
              in UncertainValue3 m (fsub ar upper m) (fsub ar m lower)) names"

text \<open>The rows in the order of \<open>sort_values\<close>, and the threshold of the scan.\<close>

definition sorted_rows :: "numerics \<Rightarrow> frame \<Rightarrow> row list" where
  "sorted_rows ar d = sort_values ar (lnprob_rows d (length (columns d) - 1))"

definition threshold :: "numerics \<Rightarrow> frame \<Rightarrow> real" where
  "threshold ar d = fsub ar (lnprob_max (lnprob_rows d (length (columns d) - 1))) (1/2)"

text \<open>A frame of samples as \<open>data_frame\<close> builds it: distinct labels, \<open>lnprob\<close> last,
  one value per label in every row.\<close>

definition sample_frame :: "frame \<Rightarrow> bool" where
  "sample_frame d \<longleftrightarrow>
     columns d \<noteq> [] \<and> last (columns d) = ''lnprob'' \<and> distinct (columns d) \<and>
     list_all (\<lambda>r. length r = length (columns d)) (rows d)"

section \<open>EmceeResult: the chain of an ensemble sampler\<close>

text \<open>
  What the module reads of an emcee sampler after a run: \<open>chain\<close> (walker, step,
  parameter), \<open>lnprobability\<close> (walker, step) and \<open>acor\<close>, emcee's autocorrelation
  estimate per parameter. Arrays are nested lists; the arrays of a sampler are
  rectangular, which theorems state where they need it.
\<close>

record sampler =
  chain :: "real list list list"
  lnprobability :: "real list list"
  acor :: "real list"

text \<open>The argument \<open>thin\<close> of \<open>data_frame\<close>: \<open>'acor'\<close>, \<open>None\<close> or an integer.\<close>

datatype thin_arg = ThinAcor | ThinNone | ThinBy int

text \<open>\<open>int(x)\<close> on a float truncates towards zero.\<close>

definition py_int :: "real \<Rightarrow> int" where
  "py_int x = (if 0 \<le> x then \<lfloor>x\<rfloor> else \<lceil>x\<rceil>)"

text \<open>The builtin \<open>max\<close> of a sequence: ValueError on an empty one.\<close>

definition py_max :: "real list \<Rightarrow> py_error + real" where
  "py_max xs = (if xs = [] then Inl ValueError else Inr (fold max (tl xs) (hd xs)))"

text \<open>
  \<^verbatim>\<open>
  if thin == 'acor':
      thin = int(max(self.sampler.acor))
  elif thin is None:
      thin = 1
  \<close>
\<close>

definition thin_stride :: "sampler \<Rightarrow> thin_arg \<Rightarrow> py_error + int" where
  "thin_stride s thin =
     (case thin of
        ThinAcor \<Rightarrow> (case py_max (acor s) of Inl e \<Rightarrow> Inl e | Inr m \<Rightarrow> Inr (py_int m))
      | ThinNone \<Rightarrow> Inr 1
      | ThinBy t \<Rightarrow> Inr t)"

text \<open>
  The positions that the slice \<open>[start::step]\<close> selects on an axis of length \<open>n\<close>
  (\<open>step\<close> not zero): a negative \<open>start\<close> counts from the end, and a \<open>start\<close> outside
  the axis is clipped.
\<close>

definition slice_indices :: "nat \<Rightarrow> int \<Rightarrow> int \<Rightarrow> nat list" where
  "slice_indices n start step =
     (if step > 0 then
        let s = (if start < 0 then max (start + int n) 0 else min start (int n))
        in map (\<lambda>j. nat (s + int j * step)) [0 ..< nat ((int n - s + step - 1) div step)]
      else
        let s = (if start < 0 then max (start + int n) (- 1) else min start (int n - 1))
        in map (\<lambda>j. nat (s + int j * step)) [0 ..< nat ((s - step) div (- step))])"

text \<open>\<open>a[:, start::step]\<close>: the slice on the step axis of every walker; numpy raises
  ValueError for a step of zero.\<close>

definition slice_steps :: "int \<Rightarrow> int \<Rightarrow> 'a list list \<Rightarrow> py_error + 'a list list" where
  "slice_steps start step ws =
     (if step = 0 then Inl ValueError
      else Inr (map (\<lambda>w. map ((!) w) (slice_indices (length w) start step)) ws))"

text \<open>\<open>a.reshape(-1, n)\<close> on the flattened array: rows of \<open>n\<close> values each.\<close>

function chunks :: "nat \<Rightarrow> 'a list \<Rightarrow> 'a list list" where
  "chunks n xs = (if n = 0 \<or> xs = [] then [] else take n xs # chunks n (drop n xs))"
  by pat_completeness auto
termination
  by (relation "measure (\<lambda>(n, xs). length xs)") auto

declare chunks.simps [simp del]

definition reshape_rows :: "nat \<Rightarrow> 'a list \<Rightarrow> py_error + 'a list list" where
  "reshape_rows n xs =
     (if n = 0 \<or> length xs mod n \<noteq> 0 then Inl ValueError else Inr (chunks n xs))"

text \<open>
  \<open>df[label] = vals\<close>: a column of another length than the frame raises ValueError; a
  label that the frame has is overwritten in place, a new one is appended as the last
  column.
\<close>

definition assign_column :: "string \<Rightarrow> real list \<Rightarrow> frame \<Rightarrow> py_error + frame" where
  "assign_column label vals d =
     (if length vals \<noteq> length (rows d) then Inl ValueError
      else case index_of label (columns d) of
             Some j \<Rightarrow> Inr (d\<lparr>rows := map2 (\<lambda>r v. r[j := v]) (rows d) vals\<rparr>)
           | None \<Rightarrow> Inr \<lparr>columns = columns d @ [label],
                           rows = map2 (\<lambda>r v. r @ [v]) (rows d) vals\<rparr>)"

text \<open>
  \<^verbatim>\<open>
  def data_frame(self, burn_in=0, thin='acor', include_lnprob=True):
      if thin == 'acor': ...
      chain = self.sampler.chain[:, burn_in::thin, ...]
      names = self._names
      npar = len(names)
      df = pd.DataFrame({n: t for (n, t) in zip(names, chain.reshape(-1, npar).T)})
      if include_lnprob:
          df['lnprob'] = self.sampler.lnprobability[:, burn_in::thin].reshape(-1)
      return df
  \<close>
  with \<open>include_lnprob\<close> at its default \<open>True\<close>, as all callers modelled here have it.
  The dictionary is keyed by the parameter names, which are distinct in a model (theorems
  on \<open>data_frame\<close> assume it). A frame is read by column label only, so the parameter
  columns are kept in the order of the names, whatever order pandas gives the keys. A
  parameter named \<open>lnprob\<close> has its column overwritten by the assignment.
\<close>

definition EmceeResult_data_frame :: "sampler \<Rightarrow> string list \<Rightarrow> int \<Rightarrow> thin_arg \<Rightarrow> py_error + frame" where
  "EmceeResult_data_frame s names burn_in thin =
     (case thin_stride s thin of Inl e \<Rightarrow> Inl e | Inr t \<Rightarrow>
      case slice_steps burn_in t (chain s) of Inl e \<Rightarrow> Inl e | Inr ch \<Rightarrow>
      case reshape_rows (length names) (concat (concat ch)) of Inl e \<Rightarrow> Inl e | Inr tab \<Rightarrow>
      case slice_steps burn_in t (lnprobability s) of Inl e \<Rightarrow> Inl e | Inr lp \<Rightarrow>
        assign_column ''lnprob'' (concat lp) \<lparr>columns = names, rows = tab\<rparr>)"

text \<open>
  \<^verbatim>\<open>
  def values(self):
      d = self.data_frame(thin=None)
      return self._values(d)
  \<close>
\<close>

definition EmceeResult_values ::
  "numerics \<Rightarrow> sampler \<Rightarrow> string list \<Rightarrow> py_error + UncertainValue list" where
  "EmceeResult_values ar s names =
     (case EmceeResult_data_frame s names 0 ThinNone of
        Inl e \<Rightarrow> Inl e
      | Inr d \<Rightarrow> SamplingResult_values ar names d)"

text \<open>
  \<^verbatim>\<open>
  def most_probable_values(self):
      values = self.sampler.chain[np.where(self.sampler.lnprobability ==
                             self.sampler.lnprobability.max())]
      if values.ndim == 2:
          if np.any(values.min(axis=0) != values.max(axis=0)):
              print("warning: multiple values with identical probability, output will be two dimensional")
          else:
              values = values[0]
      return values
  \<close>
  The result is one parameter vector (\<open>Point\<close>) or an array of several (\<open>Points\<close>).
  \<open>max\<close> of an empty array raises ValueError. Indexing the three-axis chain by the
  two index arrays of \<open>np.where\<close> always gives two axes.
\<close>

datatype most_probable = Point "real list" | Points "real list list"

definition positions :: "sampler \<Rightarrow> (real list \<times> real) list" where
  "positions s = concat (map2 zip (chain s) (lnprobability s))"

definition most_probable_values :: "sampler \<Rightarrow> py_error + most_probable" where
  "most_probable_values s =
     (let lps = concat (lnprobability s) in
      if lps = [] then Inl ValueError
      else
        let m = Max (set lps);
            vs = map fst (filter (\<lambda>(v, l). l = m) (positions s))
        in if list_ex (\<lambda>c. Min (set c) \<noteq> Max (set c)) (transpose vs)
           then Inr (Points vs)
           else Inr (Point (vs ! 0)))"

text \<open>
  Thinning as the specification words it (section 4.4): discard a burn-in prefix, then
  retain every \<open>n\<close>-th step, the first one included.
\<close>

fun every_nth :: "nat \<Rightarrow> 'a list \<Rightarrow> 'a list" where
  "every_nth n [] = []"
| "every_nth n (x # xs) = x # every_nth n (drop (n - 1) xs)"

definition thinned :: "nat \<Rightarrow> nat \<Rightarrow> 'a list \<Rightarrow> 'a list" where
  "thinned burn_in stride xs = every_nth stride (drop burn_in xs)"

section \<open>Saving and loading a SamplingResult\<close>

text \<open>
  A \<open>SamplingResult\<close> holds the sample table and the model. An HDF5 file is a list of
  named groups, each with a table and string attributes; the file system maps file
  names to files. \<open>yaml.dump\<close> and \<open>yaml.load\<close> are parameters.
\<close>

record 'm SamplingResult =
  samples :: frame
  model :: 'm

record hdf_group =
  table :: frame
  attrs :: "(string \<times> string) list"

type_synonym hdf_file = "(string \<times> hdf_group) list"

type_synonym filesystem = "string \<Rightarrow> hdf_file option"

definition put :: "'k \<Rightarrow> 'v \<Rightarrow> ('k \<times> 'v) list \<Rightarrow> ('k \<times> 'v) list" where
  "put k v kvs = (k, v) # filter (\<lambda>(k', _). k' \<noteq> k) kvs"

text \<open>
  \<^verbatim>\<open>
  def _save(self, df, filename):
      groupname = 'samples'
      df.to_hdf(filename, groupname)
      f = h5py.File(filename)
      g = f[groupname]
      g.attrs['model'] = yaml.dump(self.model)
      f.close()

  def save(self, filename):
      self._save(self.samples, filename)
  \<close>
\<close>

definition SamplingResult_save_frame ::
  "('m \<Rightarrow> string) \<Rightarrow> 'm SamplingResult \<Rightarrow> frame \<Rightarrow> string \<Rightarrow> filesystem \<Rightarrow> filesystem" where
  "SamplingResult_save_frame yaml_dump self df filename fs =
     (let f = (case fs filename of None \<Rightarrow> [] | Some f \<Rightarrow> f);
          g = \<lparr>table = df, attrs = []\<rparr>;
          g' = g\<lparr>attrs := put ''model'' (yaml_dump (model self)) (attrs g)\<rparr>
      in fs(filename \<mapsto> put ''samples'' g' f))"

definition SamplingResult_save ::
  "('m \<Rightarrow> string) \<Rightarrow> 'm SamplingResult \<Rightarrow> string \<Rightarrow> filesystem \<Rightarrow> filesystem" where
  "SamplingResult_save yaml_dump self filename fs =
     SamplingResult_save_frame yaml_dump self (samples self) filename fs"

text \<open>
  \<^verbatim>\<open>
  @classmethod
  def load(cls, filename):
      samples = pd.read_hdf(filename, 'samples')
  \<close>
  The body ends after the assignment: the call returns Python's \<open>None\<close>, here \<open>None\<close>
  of the option type.
\<close>

definition read_hdf :: "filesystem \<Rightarrow> string \<Rightarrow> string \<Rightarrow> py_error + frame" where
  "read_hdf fs filename key =
     (case fs filename of
        None \<Rightarrow> Inl IOError
      | Some f \<Rightarrow> (case map_of f key of None \<Rightarrow> Inl KeyError | Some g \<Rightarrow> Inr (table g)))"

definition SamplingResult_load :: "filesystem \<Rightarrow> string \<Rightarrow> py_error + 'm SamplingResult option" where
  "SamplingResult_load fs filename =
     (case read_hdf fs filename ''samples'' of
        Inl e \<Rightarrow> Inl e
      | Inr df \<Rightarrow> Inr None)"

text \<open>
  \<^verbatim>\<open>
  def load_sampling(filename):
      samples = pd.read_hdf(filename)
      f = h5py.File(filename)
      g = f['samples']
      model = yaml.load(g.attrs['model'])
      f.close()
      return SamplingResult(samples, model)
  \<close>
  \<open>read_hdf\<close> without a key reads the only table of the file and raises ValueError
  when the file has none or several.
\<close>

definition read_hdf_single :: "filesystem \<Rightarrow> string \<Rightarrow> py_error + frame" where
  "read_hdf_single fs filename =
     (case fs filename of
        None \<Rightarrow> Inl IOError
      | Some f \<Rightarrow> (case f of [(k, g)] \<Rightarrow> Inr (table g) | _ \<Rightarrow> Inl ValueError))"

definition load_sampling ::
  "(string \<Rightarrow> py_error + 'm) \<Rightarrow> filesystem \<Rightarrow> string \<Rightarrow> py_error + 'm SamplingResult" where
  "load_sampling yaml_load fs filename =
     (case read_hdf_single fs filename of
        Inl e \<Rightarrow> Inl e
      | Inr df \<Rightarrow>
          (case fs filename of
             None \<Rightarrow> Inl IOError
           | Some f \<Rightarrow>
               (case map_of f ''samples'' of
                  None \<Rightarrow> Inl KeyError
                | Some g \<Rightarrow>
                    (case map_of (attrs g) ''model'' of
                       None \<Rightarrow> Inl KeyError
                     | Some dumped \<Rightarrow>
                         (case yaml_load dumped of
                            Inl e \<Rightarrow> Inl e
                          | Inr m \<Rightarrow> Inr \<lparr>samples = df, model = m\<rparr>)))))"

section \<open>Subset tempering\<close>

subsection \<open>The fractions of the stages\<close>

text \<open>
  \<open>np.linspace(start, stop, num)\<close> with its default end point: \<open>num\<close> floats, the
  first \<open>start\<close>, the last set to \<open>stop\<close>, a single one \<open>start\<close>; the points
  between are numpy's. \<open>np.logspace\<close> raises 10 to these.
\<close>

definition linspace :: "numerics \<Rightarrow> real \<Rightarrow> real \<Rightarrow> nat \<Rightarrow> real list" where
  "linspace ar start stop num =
     (if num = 0 then []
      else if num = 1 then [start]
      else start # map (interior ar start stop num) [1..<num - 1] @ [stop])"

definition logspace :: "numerics \<Rightarrow> real \<Rightarrow> real \<Rightarrow> nat \<Rightarrow> real list" where
  "logspace ar start stop num = map (pow10 ar) (linspace ar start stop num)"

text \<open>
  \<^verbatim>\<open>
  fractions = np.logspace(np.log10(min_pixels), np.log10(max_pixels), stages+1)/n_pixels
  \<close>
\<close>

definition fractions :: "numerics \<Rightarrow> int \<Rightarrow> int \<Rightarrow> nat \<Rightarrow> nat \<Rightarrow> real list" where
  "fractions ar min_pixels max_pixels stages n_pixels =
     map (\<lambda>x. fdiv ar x (real n_pixels))
       (logspace ar (log10 ar (real_of_int min_pixels)) (log10 ar (real_of_int max_pixels))
          (stages + 1))"

text \<open>Linear interpolation, as the specification uses it for the exponents.\<close>

definition lerp :: "real \<Rightarrow> real \<Rightarrow> real \<Rightarrow> real" where
  "lerp a b t = a + (b - a) * t"

subsection \<open>The ensemble driver\<close>

text \<open>
  What lies outside the module is a record of functions: the random subset of an image
  (\<open>make_subset_data\<close>), the size of an image, the name of a parameter and a draw from
  its prior (\<open>p.sample(size=n)\<close>), a run of emcee's sampler (\<open>make_sampler\<close> and
  \<open>run_mcmc\<close>), the refinement rule \<open>prior.updated\<close> and the number of processors.
  Random draws thread a state \<open>'w\<close>. The state of a run also counts the sampler runs
  and the calls of \<open>updated_priors\<close>. Logging and timing are left out.
\<close>

datatype 'img data = Image 'img | Frames "'img list"

record 'p fit_model =
  parameters :: "'p list"

record ('img, 'p) Emcee =
  emcee_model :: "'p fit_model"
  n_frames :: nat
  emcee_data :: "'img data"
  nwalkers :: nat
  threads :: "nat option"

record 'p EmceeResult =
  result_sampler :: sampler
  result_model :: "'p fit_model"

record ('img, 'p, 'w) env =
  make_subset_data :: "'img \<Rightarrow> real option \<Rightarrow> 'w \<Rightarrow> 'img \<times> 'w"
  size_of :: "'img \<Rightarrow> nat"
  name_of :: "'p \<Rightarrow> string"
  sample_prior :: "'p \<Rightarrow> nat \<Rightarrow> 'w \<Rightarrow> real list \<times> 'w"
  run_mcmc :: "('img, 'p) Emcee \<Rightarrow> real list list \<Rightarrow> nat \<Rightarrow> 'w \<Rightarrow> sampler \<times> 'w"
  updated :: "'p \<Rightarrow> UncertainValue \<Rightarrow> real \<Rightarrow> py_error + 'p"
  cpu_count :: nat

record 'w run_state =
  world :: 'w
  mcmc_runs :: nat
  prior_updates :: nat

text \<open>A list comprehension whose body draws from the random state.\<close>

fun map_state :: "('a \<Rightarrow> 'w \<Rightarrow> 'b \<times> 'w) \<Rightarrow> 'a list \<Rightarrow> 'w \<Rightarrow> 'b list \<times> 'w" where
  "map_state g [] w = ([], w)"
| "map_state g (x # xs) w =
     (let (y, w1) = g x w; (ys, w2) = map_state g xs w1 in (y # ys, w2))"

text \<open>
  \<^verbatim>\<open>
  def __init__(self, model, data, nwalkers=50, random_subset=None, threads=None, preprocess=None):
      self.model = model
      if preprocess is None:
          preprocess = lambda x: x
      if not isinstance(data, Image):
          self.n_frames = len(data)
          self.data = [make_subset_data(preprocess(d), random_subset) for d in data]
      else:
          self.n_frames = 1
          self.data = make_subset_data(preprocess(data), random_subset)
      self.nwalkers = nwalkers
      self.threads = threads
  \<close>
\<close>

definition Emcee_init ::
  "('img, 'p, 'w) env \<Rightarrow> 'p fit_model \<Rightarrow> 'img data \<Rightarrow> nat \<Rightarrow> real option \<Rightarrow> nat option \<Rightarrow>
     ('img \<Rightarrow> 'img) option \<Rightarrow> 'w run_state \<Rightarrow> ('img, 'p) Emcee \<times> 'w run_state" where
  "Emcee_init env m dat nw random_subset thr preprocess st =
     (let pre = (case preprocess of None \<Rightarrow> (\<lambda>x. x) | Some f \<Rightarrow> f) in
      case dat of
        Frames ds \<Rightarrow>
          (let (ds', w') = map_state (\<lambda>d. make_subset_data env (pre d) random_subset) ds (world st)
           in (\<lparr>emcee_model = m, n_frames = length ds, emcee_data = Frames ds',
                 nwalkers = nw, threads = thr\<rparr>, st\<lparr>world := w'\<rparr>))
      | Image d \<Rightarrow>
          (let (d', w') = make_subset_data env (pre d) random_subset (world st)
           in (\<lparr>emcee_model = m, n_frames = 1, emcee_data = Image d',
                 nwalkers = nw, threads = thr\<rparr>, st\<lparr>world := w'\<rparr>)))"

text \<open>\<open>np.vstack(arrays).T\<close>: ValueError without any array, else the transposed stack.\<close>

definition vstack_T :: "real list list \<Rightarrow> py_error + real list list" where
  "vstack_T arrays = (if arrays = [] then Inl ValueError else Inr (transpose arrays))"

text \<open>
  \<^verbatim>\<open>
  def make_guess(self):
      return np.vstack([p.sample(size=(self.nwalkers)) for p in self.model.parameters]).T
  \<close>
\<close>

definition make_guess ::
  "('img, 'p, 'w) env \<Rightarrow> ('img, 'p) Emcee \<Rightarrow> 'w run_state \<Rightarrow> py_error + real list list \<times> 'w run_state" where
  "make_guess env self st =
     (let (draws, w') = map_state (\<lambda>p. sample_prior env p (nwalkers self))
                          (parameters (emcee_model self)) (world st)
      in case vstack_T draws of Inl e \<Rightarrow> Inl e | Inr p0 \<Rightarrow> Inr (p0, st\<lparr>world := w'\<rparr>))"

text \<open>
  \<^verbatim>\<open>
  def sample(self, n_samples, p0=None):
      sampler = self.make_sampler()
      if p0 is None:
          p0 = self.make_guess()
      sampler.run_mcmc(p0, n_samples)
      return EmceeResult(sampler, self.model)
  \<close>
\<close>

definition Emcee_sample ::
  "('img, 'p, 'w) env \<Rightarrow> ('img, 'p) Emcee \<Rightarrow> nat \<Rightarrow> real list list option \<Rightarrow> 'w run_state \<Rightarrow>
     py_error + 'p EmceeResult \<times> 'w run_state" where
  "Emcee_sample env self n_samples p0 st =
     (case (case p0 of None \<Rightarrow> make_guess env self st | Some p \<Rightarrow> Inr (p, st)) of
        Inl e \<Rightarrow> Inl e
      | Inr (p, st1) \<Rightarrow>
          (let (smp, w') = run_mcmc env self p n_samples (world st1)
           in Inr (\<lparr>result_sampler = smp, result_model = emcee_model self\<rparr>,
                   st1\<lparr>world := w', mcmc_runs := mcmc_runs st1 + 1\<rparr>)))"

text \<open>
  \<^verbatim>\<open>
  def updated_priors(self, extra_uncertainty=None):
      if extra_uncertainty is None:
          extra_uncertainty = np.zeros(len(list(self.model.parameters)))
      return [prior.updated(*p) for p in
              zip(self.model.parameters, self.values(), extra_uncertainty)]
  \<close>
\<close>

definition EmceeResult_names :: "('img, 'p, 'w) env \<Rightarrow> 'p EmceeResult \<Rightarrow> string list" where
  "EmceeResult_names env self = map (name_of env) (parameters (result_model self))"

definition EmceeResult_updated_priors ::
  "numerics \<Rightarrow> ('img, 'p, 'w) env \<Rightarrow> 'p EmceeResult \<Rightarrow> real list option \<Rightarrow> py_error + 'p list" where
  "EmceeResult_updated_priors ar env self extra_uncertainty =
     (let extra = (case extra_uncertainty of
                     None \<Rightarrow> replicate (length (parameters (result_model self))) 0
                   | Some e \<Rightarrow> e)
      in case EmceeResult_values ar (result_sampler self) (EmceeResult_names env self) of
           Inl e \<Rightarrow> Inl e
         | Inr vals \<Rightarrow>
             comprehension (\<lambda>(p, v, e). updated env p v e)
               (zip (parameters (result_model self)) (zip vals extra)))"

subsection \<open>The schedule\<close>

text \<open>The argument \<open>threads\<close>: \<open>'all'\<close>, \<open>None\<close> or a number.\<close>

datatype threads_arg = AllThreads | Threads "nat option"

text \<open>
  \<^verbatim>\<open>
  if not isinstance(data, Image):
      n_pixels = preprocess(data[0]).size
  else:
      n_pixels = preprocess(data).size
  \<close>
\<close>

definition n_pixels_of :: "('img, 'p, 'w) env \<Rightarrow> ('img \<Rightarrow> 'img) \<Rightarrow> 'img data \<Rightarrow> py_error + nat" where
  "n_pixels_of env pre dat =
     (case dat of
        Frames [] \<Rightarrow> Inl IndexError
      | Frames (d # _) \<Rightarrow> Inr (size_of env (pre d))
      | Image d \<Rightarrow> Inr (size_of env (pre d)))"

text \<open>
  \<^verbatim>\<open>
  p0 = None
  for fraction in stage_fractions:
      emcee = Emcee(model=model, data=data, nwalkers=nwalkers, random_subset=fraction,
                    threads=threads, preprocess=preprocess)
      result = emcee.sample(stage_len, p0)
      new_pars = result.updated_priors()
      # TODO need to do something if we come back sd == 0
      p0 = np.vstack([p.sample(size=nwalkers) for p in new_pars]).T
  \<close>
\<close>

fun stage_loop ::
  "numerics \<Rightarrow> ('img, 'p, 'w) env \<Rightarrow> 'p fit_model \<Rightarrow> 'img data \<Rightarrow> nat \<Rightarrow> nat option \<Rightarrow> ('img \<Rightarrow> 'img) \<Rightarrow> nat \<Rightarrow>
     real list \<Rightarrow> real list list option \<Rightarrow> 'w run_state \<Rightarrow>
     py_error + real list list option \<times> 'w run_state" where
  "stage_loop ar env m dat nw thr pre stage_len [] p0 st = Inr (p0, st)"
| "stage_loop ar env m dat nw thr pre stage_len (fraction # rest) p0 st =
     (let (emcee, st1) = Emcee_init env m dat nw (Some fraction) thr (Some pre) st in
      case Emcee_sample env emcee stage_len p0 st1 of
        Inl e \<Rightarrow> Inl e
      | Inr (result, st2) \<Rightarrow>
          (case EmceeResult_updated_priors ar env result None of
             Inl e \<Rightarrow> Inl e
           | Inr new_pars \<Rightarrow>
               (let st3 = st2\<lparr>prior_updates := prior_updates st2 + 1\<rparr>;
                    (draws, w') = map_state (\<lambda>p. sample_prior env p nw) new_pars (world st3)
                in case vstack_T draws of
                     Inl e \<Rightarrow> Inl e
                   | Inr p0' \<Rightarrow>
                       stage_loop ar env m dat nw thr pre stage_len rest (Some p0')
                         (st3\<lparr>world := w'\<rparr>))))"

text \<open>
  \<^verbatim>\<open>
  def subset_tempering(model, data, final_len=600, nwalkers=500, min_pixels=10,
                       max_pixels=1000, threads='all', stages=3, stage_len=30,
                       preprocess=None, verbose=True):
      if threads == 'all':
          threads = multiprocessing.cpu_count()
      if preprocess is None:
          preprocess = lambda x: x
      ... n_pixels, fractions ...
      stage_fractions = fractions[:-1]
      final_fraction = fractions[-1]
      ... the loop over stage_fractions ...
      emcee = Emcee(model=model, data=data, nwalkers=nwalkers, random_subset=final_fraction,
                    threads=threads)
      result = emcee.sample(final_len, p0)
      return result
  \<close>
  The number of stages is a natural number. The final \<open>Emcee\<close> is constructed without
  \<open>preprocess\<close>.
\<close>

definition subset_tempering ::
  "numerics \<Rightarrow> ('img, 'p, 'w) env \<Rightarrow> 'p fit_model \<Rightarrow> 'img data \<Rightarrow> nat \<Rightarrow> nat \<Rightarrow> int \<Rightarrow> int \<Rightarrow> threads_arg \<Rightarrow>
     nat \<Rightarrow> nat \<Rightarrow> ('img \<Rightarrow> 'img) option \<Rightarrow> 'w run_state \<Rightarrow>
     py_error + 'p EmceeResult \<times> 'w run_state" where
  "subset_tempering ar env m dat final_len nw min_pixels max_pixels thr_arg stages stage_len
       preprocess st =
     (let thr = (case thr_arg of AllThreads \<Rightarrow> Some (cpu_count env) | Threads t \<Rightarrow> t);
          pre = (case preprocess of None \<Rightarrow> (\<lambda>x. x) | Some f \<Rightarrow> f)
      in case n_pixels_of env pre dat of
           Inl e \<Rightarrow> Inl e
         | Inr n_pixels \<Rightarrow>
             (let fracs = fractions ar min_pixels max_pixels stages n_pixels;
                  stage_fractions = butlast fracs;
                  final_fraction = last fracs
              in case stage_loop ar env m dat nw thr pre stage_len stage_fractions None st of
                   Inl e \<Rightarrow> Inl e
                 | Inr (p0, st1) \<Rightarrow>
                     (let (emcee, st2) = Emcee_init env m dat nw (Some final_fraction) thr None st1
                      in Emcee_sample env emcee final_len p0 st2)))"

subsection \<open>The refinement rule\<close>

text \<open>
  Modelled from the spec: \<open>prior.updated\<close>, of the module \<open>prior\<close> that \<open>mcmc.py\<close>
  imports and that is not among the sources. The specification has the refined prior be
  of the same family, derived from the summarized interval and widened to the floor
  \<open>extra_uncertainty\<close> (section 4.4), and says of the code that it
  "silently produces a zero-variance refined prior when the posterior degenerates"
  (section 9). The priors refined here are the ones \<open>sample_string\<close> prints: a name,
  \<open>mu\<close> and \<open>sd\<close>. The width is the larger of the two deviations and the floor.
\<close>

record prior =
  name :: string
  mu :: real
  sd :: real

definition prior_updated :: "prior \<Rightarrow> UncertainValue \<Rightarrow> real \<Rightarrow> py_error + prior" where
  "prior_updated p v extra_uncertainty =
     Inr (p\<lparr>mu := uv_value v,
            sd := max (max (uv_plus v) (case uv_minus v of None \<Rightarrow> uv_plus v | Some m \<Rightarrow> m))
                      extra_uncertainty\<rparr>)"

section \<open>Inputs used below\<close>

subsection \<open>Numerics\<close>

text \<open>
  Arithmetic without rounding error, numpy's formula for the interior points of
  \<open>linspace\<close>, and a sort that leaves equal keys in their order. The tables and
  samplers below hold small integers, and their thresholds and differences are
  integers and halves: binary64 computes them without rounding error.
\<close>

definition exact_numerics :: numerics where
  "exact_numerics =
     \<lparr>err_sub = (\<lambda>x y. 0),
      fdiv = (\<lambda>x y. x / y),
      log10 = (\<lambda>x. log 10 x),
      pow10 = (\<lambda>y. 10 powr y),
      interior = (\<lambda>start stop num i. real i * ((stop - start) / real (num - 1)) + start),
      tie_swaps = (\<lambda>rs. [])\<rparr>"

text \<open>
  The binary64 results on the way from \<open>max_pixels = 5\<close> to the last fraction over
  \<open>n_pixels = 5\<close>: \<open>log10(5)\<close> is the float \<open>6295762102141697 / 2^53\<close>
  (0.6989700043360189), 10 to this power is \<open>5 + 2^-50\<close> (5.000000000000001), and
  its quotient by 5 is \<open>1 + 2^-52\<close> (1.0000000000000002).
\<close>

definition binary64_at_5 :: numerics where
  "binary64_at_5 =
     exact_numerics
       \<lparr>fdiv := (\<lambda>x y. if x = 5 + 1 / 2 ^ 50 \<and> y = 5 then 1 + 1 / 2 ^ 52 else x / y),
        log10 := (\<lambda>x. if x = 5 then 6295762102141697 / 2 ^ 53 else log 10 x),
        pow10 := (\<lambda>y. if y = 6295762102141697 / 2 ^ 53 then 5 + 1 / 2 ^ 50 else 10 powr y)\<rparr>"

text \<open>
  Exact arithmetic, except that the difference of \<open>-1e16\<close> and \<open>0.5\<close> is
  \<open>-1e16\<close>, as in binary64, where the neighbours of \<open>-1e16\<close> are 2 apart. The relative
  error of this difference is below \<open>2^-53\<close>.
\<close>

definition absorbing_numerics :: numerics where
  "absorbing_numerics =
     exact_numerics
       \<lparr>err_sub := (\<lambda>x y. if x = - 10000000000000000 \<and> y = 1 / 2
                            then - (1 / 2) / (10000000000000000 + 1 / 2) else 0)\<rparr>"

subsection \<open>Sample tables\<close>

definition one_row_table :: frame where
  "one_row_table = \<lparr>columns = [''x'', ''lnprob''], rows = [[1, 0]]\<rparr>"

definition dominant_zero_table :: frame where
  "dominant_zero_table = \<lparr>columns = [''x'', ''lnprob''], rows =
     [[1, - 2], [1, 0], [5, - 1]]\<rparr>"

definition dominant_row_table :: frame where
  "dominant_row_table = \<lparr>columns = [''x'', ''lnprob''], rows =
     [[3, - 2], [1, 0], [0, - 3], [2, - 1]]\<rparr>"

definition two_parameter_table :: frame where
  "two_parameter_table = \<lparr>columns = [''a'', ''b'', ''lnprob''], rows =
     [[0, 0, 0], [9, 9, - 1], [1, 0, - 2], [2, 0, - 3]]\<rparr>"

text \<open>
  Two samples whose log-probabilities are \<open>-1e16\<close> and \<open>-1e16 - 2\<close>.
\<close>

definition large_magnitude_table :: frame where
  "large_magnitude_table = \<lparr>columns = [''x'', ''lnprob''], rows =
     [[1, - 10000000000000000], [2, - 10000000000000002]]\<rparr>"

subsection \<open>Samplers\<close>

definition short_acor_sampler :: sampler where
  "short_acor_sampler = \<lparr>chain = [[[1], [2]]], lnprobability = [[0, - 1]], acor = [1/2]\<rparr>"

definition thinning_sampler :: sampler where
  "thinning_sampler = \<lparr>chain = [[[1], [2], [3], [4], [5]], [[6], [7], [8], [9], [10]]],
     lnprobability = [[0, - 1, - 2, - 3, - 4], [- 5, - 6, - 7, - 8, - 9]], acor = [5/2]\<rparr>"

definition tied_sampler :: sampler where
  "tied_sampler = \<lparr>chain = [[[1], [2], [0]]], lnprobability = [[0, 0, - 1]], acor = [1]\<rparr>"

definition peaked_sampler :: sampler where
  "peaked_sampler = \<lparr>chain = [[[1, 5], [2, 6]], [[3, 7], [1, 5]]],
     lnprobability = [[0, - 1], [- 2, 0]], acor = [1, 1]\<rparr>"

definition collapsed_sampler :: sampler where
  "collapsed_sampler = \<lparr>chain = [[[1]], [[2]]], lnprobability = [[0], [- 1]], acor = [1]\<rparr>"

subsection \<open>An environment\<close>

text \<open>
  Images are lists of pixel values. A draw from a prior is \<open>mu + sd * z\<close> for a number
  \<open>z\<close> read off the random state; every sampler run ends in \<open>collapsed_sampler\<close>; the
  refinement rule is \<open>prior_updated\<close>.
\<close>

definition example_env :: "(real list, prior, nat) env" where
  "example_env =
     \<lparr>make_subset_data = (\<lambda>img f w. (img, w + 1)),
      size_of = length,
      name_of = name,
      sample_prior = (\<lambda>p n w. (replicate n (mu p + sd p * real w), w + 1)),
      run_mcmc = (\<lambda>e p0 n w. (collapsed_sampler, w + 1)),
      updated = prior_updated,
      cpu_count = 1\<rparr>"

definition example_model :: "prior fit_model" where
  "example_model = \<lparr>parameters = [\<lparr>name = ''x'', mu = 0, sd = 1\<rparr>]\<rparr>"

definition initial_state :: "nat run_state" where
  "initial_state = \<lparr>world = 0, mcmc_runs = 0, prior_updates = 0\<rparr>"

section \<open>Properties of the summary\<close>

subsection \<open>Rounding and sorting\<close>

lemma rounding_factor_pos: "0 < 1 + max (- unit_roundoff) (min unit_roundoff e)"
proof -
  have "unit_roundoff < 1" by (simp add: unit_roundoff_def)
  then show ?thesis by (simp add: max_def min_def)
qed

lemma fsub_eq_0_iff [simp]: "fsub ar x y = 0 \<longleftrightarrow> x = y"
  using rounding_factor_pos [of "err_sub ar x y"] by (simp add: fsub_def)

lemma fsub_exact [simp]: "fsub exact_numerics x y = x - y"
  by (simp add: fsub_def exact_numerics_def unit_roundoff_def)

lemma length_apply_swaps [simp]: "length (apply_swaps sw xs) = length xs"
  by (induction sw xs rule: apply_swaps.induct) simp_all

lemma set_apply_swaps [simp]: "set (apply_swaps sw xs) = set xs"
  by (induction sw xs rule: apply_swaps.induct) (simp_all add: set_swap)

lemma set_sort_values [simp]: "set (sort_values ar rs) = set rs"
  by (simp add: sort_values_def)

lemma length_sort_values [simp]: "length (sort_values ar rs) = length rs"
  by (simp add: sort_values_def)

lemma sort_values_eq_Nil [simp]: "sort_values ar rs = [] \<longleftrightarrow> rs = []"
  by (metis length_0_conv length_sort_values)

lemma lnprob_max_sort_values [simp]: "lnprob_max (sort_values ar rs) = lnprob_max rs"
  by (simp add: lnprob_max_def)

lemma sort_values_exact [simp]:
  "sort_values exact_numerics rs = sort_key (\<lambda>r. - lnprob r) rs"
  by (simp add: sort_values_def exact_numerics_def)

lemma sort_values_head_max:
  assumes "rs \<noteq> []"
  shows "lnprob (sort_values ar rs ! 0) = lnprob_max rs"
proof -
  let ?ss = "sort_values ar rs"
  have srt: "sorted (map (\<lambda>r. - lnprob r) ?ss)" by (simp add: sort_values_def)
  have pos: "0 < length ?ss" using assms by simp
  then have mem: "?ss ! 0 \<in> set rs" by (metis nth_mem set_sort_values)
  have "lnprob r \<le> lnprob (?ss ! 0)" if "r \<in> set rs" for r
  proof -
    from that obtain j where j: "j < length ?ss" "?ss ! j = r"
      by (metis in_set_conv_nth set_sort_values)
    have "map (\<lambda>r. - lnprob r) ?ss ! 0 \<le> map (\<lambda>r. - lnprob r) ?ss ! j"
      using srt j(1) by (intro sorted_nth_mono) simp_all
    then show ?thesis using j pos by (simp add: nth_map)
  qed
  then show ?thesis
    unfolding lnprob_max_def using mem by (intro Max_eqI [symmetric]) auto
qed

lemma index_of_append_last:
  "x \<notin> set xs \<Longrightarrow> index_of x (xs @ [x]) = Some (length xs)"
  by (induction xs) auto

lemma sample_frame_index:
  assumes "sample_frame d"
  shows "index_of ''lnprob'' (columns d) = Some (length (columns d) - 1)"
proof -
  from assms have ne: "columns d \<noteq> []" and la: "last (columns d) = ''lnprob''"
    and di: "distinct (columns d)" by (simp_all add: sample_frame_def)
  have split: "columns d = butlast (columns d) @ [''lnprob'']"
    using ne la by (metis append_butlast_last_id)
  have "distinct (butlast (columns d) @ [''lnprob''])" using di split by metis
  then have "''lnprob'' \<notin> set (butlast (columns d))" by simp
  then have "index_of ''lnprob'' (butlast (columns d) @ [''lnprob'']) = Some (length (butlast (columns d)))"
    by (rule index_of_append_last)
  then show ?thesis using split by simp
qed

text \<open>
  The subtraction is within the unit roundoff of the exact difference, whatever the
  error function of the numerics is.
\<close>

lemma fsub_error_bound: "\<bar>fsub ar x y - (x - y)\<bar> \<le> unit_roundoff * \<bar>x - y\<bar>"
proof -
  let ?c = "max (- unit_roundoff) (min unit_roundoff (err_sub ar x y))"
  have u: "0 \<le> unit_roundoff" by (simp add: unit_roundoff_def)
  have "- unit_roundoff \<le> ?c" by simp
  moreover have "?c \<le> unit_roundoff" using u by simp
  ultimately have "\<bar>?c\<bar> \<le> unit_roundoff" by linarith
  then have "\<bar>x - y\<bar> * \<bar>?c\<bar> \<le> \<bar>x - y\<bar> * unit_roundoff"
    by (intro mult_left_mono) simp_all
  moreover have "fsub ar x y - (x - y) = (x - y) * ?c" by (simp add: fsub_def algebra_simps)
  ultimately show ?thesis by (simp add: abs_mult mult.commute)
qed

text \<open>
  The sort returns the rows in descending order of \<open>lnprob\<close>, and every descending
  arrangement of the rows is the result of the sort for some choice of \<open>tie_swaps\<close>: a
  statement that holds for every \<open>numerics\<close> holds for every order in which an unstable
  sort may leave tied rows.
\<close>

lemma apply_swaps_shift:
  "apply_swaps (map (\<lambda>(i, j). (Suc i, Suc j)) sw) (x # xs) = x # apply_swaps sw xs"
proof (induction sw arbitrary: xs)
  case Nil
  then show ?case by simp
next
  case (Cons a sw)
  obtain i j where a: "a = (i, j)" by (cases a)
  show ?case
  proof (cases "i < length xs \<and> j < length xs")
    case True
    then show ?thesis using Cons.IH [of "xs[i := xs ! j, j := xs ! i]"] by (simp add: a)
  next
    case False
    then show ?thesis using Cons.IH [of xs] by (auto simp: a)
  qed
qed

lemma mset_apply_swaps [simp]: "mset (apply_swaps sw xs) = mset xs"
  by (induction sw xs rule: apply_swaps.induct) (simp_all add: mset_swap)

lemma every_arrangement_by_swaps:
  "mset ys = mset xs \<Longrightarrow> \<exists>sw. apply_swaps sw xs = ys"
proof (induction ys arbitrary: xs)
  case Nil
  then have "xs = []" by simp
  then have "apply_swaps [] xs = []" by simp
  then show ?case by blast
next
  case (Cons y t)
  then have "y \<in> set xs" by (metis list.set_intros(1) set_mset_mset)
  then obtain j where j: "j < length xs" "xs ! j = y" by (metis in_set_conv_nth)
  then have pos: "0 < length xs" by auto
  define xs1 where "xs1 = xs[0 := xs ! j, j := xs ! 0]"
  have m1: "mset xs1 = mset xs" unfolding xs1_def using j(1) pos by (simp add: mset_swap)
  have len1: "length xs1 = length xs" by (simp add: xs1_def)
  have "xs1 ! 0 = y" unfolding xs1_def using j pos by (cases "j = 0") simp_all
  then have split: "xs1 = y # tl xs1" using len1 pos by (cases xs1) simp_all
  then have "mset (y # tl xs1) = mset (y # t)" using m1 Cons.prems by simp
  then have "mset t = mset (tl xs1)" by simp
  then obtain sw where sw: "apply_swaps sw (tl xs1) = t" using Cons.IH by blast
  have "apply_swaps ((0, j) # map (\<lambda>(i, j). (Suc i, Suc j)) sw) xs
      = apply_swaps (map (\<lambda>(i, j). (Suc i, Suc j)) sw) xs1"
    using j(1) pos by (simp add: xs1_def)
  also have "\<dots> = y # apply_swaps sw (tl xs1)"
    by (subst split) (rule apply_swaps_shift)
  finally show ?case using sw by blast
qed

lemma sort_values_descending:
  "sorted (map (\<lambda>r. - lnprob r) (sort_values ar rs)) \<and> mset (sort_values ar rs) = mset rs"
  by (simp add: sort_values_def)

lemma sort_values_every_descending_arrangement:
  assumes "mset rs' = mset rs" "sorted (map (\<lambda>r. - lnprob r) rs')"
  shows "\<exists>sw. sort_values (ar\<lparr>tie_swaps := (\<lambda>_. sw)\<rparr>) rs = rs'"
proof -
  from assms(1) obtain sw where "apply_swaps sw rs = rs'"
    using every_arrangement_by_swaps by blast
  then have "sort_values (ar\<lparr>tie_swaps := (\<lambda>_. sw)\<rparr>) rs = rs'"
    using assms(2) by (simp add: sort_values_def sort_key_id_if_sorted)
  then show ?thesis by blast
qed

text \<open>
  In binary64 the top row of \<open>large_magnitude_table\<close> is not above the threshold, which
  is the top log-probability itself: the scan stops at the first row, and the bounds
  are taken from the second row on.
\<close>

lemma fsub_absorbs_half: "fsub absorbing_numerics (- 10000000000000000) (1 / 2) = - 10000000000000000"
  by (simp add: fsub_def absorbing_numerics_def exact_numerics_def unit_roundoff_def)

lemma fsub_absorbing_other:
  "\<not> (x = - 10000000000000000 \<and> y = 1 / 2) \<Longrightarrow> fsub absorbing_numerics x y = x - y"
  by (auto simp: fsub_def absorbing_numerics_def exact_numerics_def unit_roundoff_def)

lemma sort_values_absorbing:
  "sort_values absorbing_numerics rs = sort_key (\<lambda>r. - lnprob r) rs"
  by (simp add: sort_values_def absorbing_numerics_def exact_numerics_def)

lemma values_example_large_magnitude:
  "SamplingResult_values absorbing_numerics [''x''] large_magnitude_table
     = Inr [\<lparr>uv_value = 1, uv_plus = 1, uv_minus = Some 0, uv_n_sigma = 1\<rparr>]"
  by (simp add: SamplingResult_values_def lnprob_rows_def lnprob_max_def
        threshold_scan.simps find_bound_def find_bound_loop.simps series_any_eq_def
        uncertain_value_at_def series_get_def UncertainValue3_def UncertainValue_init_def
        large_magnitude_table_def fsub_absorbs_half fsub_absorbing_other
        sort_values_absorbing)

subsection \<open>The threshold scan\<close>

lemma threshold_scan_all_above:
  assumes "\<forall>j < length rs. i \<le> j \<longrightarrow> lnprob (rs ! j) > fsub ar (lnprob_max rs) (1/2)"
  shows "threshold_scan ar rs i = Inl IndexError"
  using assms
proof (induction "length rs - i" arbitrary: i)
  case 0
  then show ?case by (simp add: threshold_scan.simps)
next
  case (Suc k)
  then have lt: "i < length rs" by simp
  have step: "threshold_scan ar rs i = threshold_scan ar rs (Suc i)"
    using lt Suc.prems by (subst threshold_scan.simps) simp
  have "threshold_scan ar rs (Suc i) = Inl IndexError"
    using Suc.hyps Suc.prems by (intro Suc.hyps(1)) auto
  with step show ?case by simp
qed

text \<open>
  C10. On a table (with a column \<open>lnprob\<close>) in which every row's log-probability is
  above the threshold \<open>Lmax - 0.5\<close>, the threshold scan runs up to index \<open>d.shape[0]\<close>,
  reads \<open>d.lnprob.iloc[i]\<close> there before it tests \<open>i < d.shape[0]\<close>, and \<open>_values\<close>
  raises IndexError instead of returning a summary. This holds for every such table,
  whatever the rounding of the threshold and the order of equal rows; the one-row table
  is one of them.
\<close>

theorem values_index_error_when_all_within_threshold:
  assumes "index_of ''lnprob'' (columns d) = Some j"
      and "list_all (\<lambda>r. lnprob r > fsub ar (lnprob_max (lnprob_rows d j)) (1/2))
             (lnprob_rows d j)"
  shows "threshold_scan ar (sort_values ar (lnprob_rows d j)) 0 = Inl IndexError
       \<and> SamplingResult_values ar names d = Inl IndexError"
proof -
  let ?rs = "sort_values ar (lnprob_rows d j)"
  have "\<forall>i < length ?rs. lnprob (?rs ! i) > fsub ar (lnprob_max ?rs) (1/2)"
  proof (intro allI impI)
    fix i assume "i < length ?rs"
    then have "?rs ! i \<in> set ?rs" by (rule nth_mem)
    then show "lnprob (?rs ! i) > fsub ar (lnprob_max ?rs) (1/2)"
      using assms(2) by (simp add: list_all_iff)
  qed
  then have scan: "threshold_scan ar ?rs 0 = Inl IndexError"
    by (intro threshold_scan_all_above) simp
  then show ?thesis using assms(1) by (simp add: SamplingResult_values_def Let_def)
qed

theorem values_index_error_witness:
  "index_of ''lnprob'' (columns one_row_table) = Some 1
   \<and> list_all (\<lambda>r. lnprob r > fsub exact_numerics (lnprob_max (lnprob_rows one_row_table 1)) (1/2))
        (lnprob_rows one_row_table 1)
   \<and> threshold_scan exact_numerics (sort_values exact_numerics (lnprob_rows one_row_table 1)) 0
       = Inl IndexError
   \<and> SamplingResult_values exact_numerics [''x''] one_row_table = Inl IndexError"
proof -
  have i: "index_of ''lnprob'' (columns one_row_table) = Some 1"
    by (simp add: one_row_table_def)
  have h: "list_all (\<lambda>r. lnprob r > fsub exact_numerics (lnprob_max (lnprob_rows one_row_table 1)) (1/2))
        (lnprob_rows one_row_table 1)"
    by (simp add: lnprob_max_def lnprob_rows_def one_row_table_def)
  show ?thesis
    using i h values_index_error_when_all_within_threshold [OF i h, of "[''x'']"] by simp
qed

subsection \<open>The summary of a table with a row at or below the threshold\<close>

lemma threshold_scan_first_not_above:
  assumes "k < length rs" "i \<le> k"
      and "\<forall>j < k. i \<le> j \<longrightarrow> lnprob (rs ! j) > fsub ar (lnprob_max rs) (1/2)"
      and "lnprob (rs ! k) \<le> fsub ar (lnprob_max rs) (1/2)"
  shows "threshold_scan ar rs i = Inr k"
  using assms
proof (induction "k - i" arbitrary: i)
  case 0
  then have "i = k" by simp
  with 0 show ?case by (subst threshold_scan.simps) simp
next
  case (Suc n)
  then have lt: "i < k" by simp
  then have "lnprob (rs ! i) > fsub ar (lnprob_max rs) (1/2)" using Suc.prems by simp
  then have step: "threshold_scan ar rs i = threshold_scan ar rs (Suc i)"
    using lt Suc.prems(1) by (subst threshold_scan.simps) simp
  have "threshold_scan ar rs (Suc i) = Inr k"
    using Suc.hyps Suc.prems lt by (intro Suc.hyps(1)) auto
  with step show ?case by simp
qed

lemma find_bound_loop_joint_scan:
  "find_bound_loop f rs mp b i = joint_scan f mp b (drop i rs)"
proof (induction "length rs - i" arbitrary: b i)
  case 0
  then show ?case by (simp add: find_bound_loop.simps)
next
  case (Suc k)
  then have lt: "i < length rs" by simp
  then have d: "drop i rs = rs ! i # drop (Suc i) rs" by (simp add: Cons_nth_drop_Suc)
  have ih: "\<And>b'. find_bound_loop f rs mp b' (Suc i) = joint_scan f mp b' (drop (Suc i) rs)"
    using Suc.hyps by (intro Suc.hyps(1)) simp
  show ?case
    by (subst find_bound_loop.simps) (simp add: d ih lt)
qed

lemma length_joint_scan:
  "list_all (\<lambda>r. length (pars r) = length b) rs \<Longrightarrow> length (joint_scan f mp b rs) = length b"
  by (induction rs arbitrary: b) auto

lemma series_get_at:
  assumes "length vals = length idx" "p \<in> set idx"
  shows "series_get idx vals p = Inr (series_at idx vals p)"
proof -
  obtain v where "map_of (zip idx vals) p = Some v"
    using assms map_of_zip_is_Some [of idx vals p] by auto
  then show ?thesis by (simp add: series_get_def series_at_def)
qed

lemma comprehension_total:
  "(\<And>x. x \<in> set xs \<Longrightarrow> g x = Inr (h x)) \<Longrightarrow> comprehension g xs = Inr (map h xs)"
  by (induction xs) auto

lemma sample_frame_rows:
  assumes "sample_frame d" "r \<in> set (sorted_rows ar d)"
  shows "length (pars r) = length (butlast (columns d))"
proof -
  from assms(2) have "r \<in> set (lnprob_rows d (length (columns d) - 1))"
    by (simp add: sorted_rows_def)
  then obtain v where "v \<in> set (rows d)" "pars r = butlast v"
    by (auto simp: lnprob_rows_def)
  then show ?thesis using assms(1) by (simp add: sample_frame_def list_all_iff)
qed

lemma length_sorted_rows [simp]: "length (sorted_rows ar d) = length (rows d)"
  by (simp add: sorted_rows_def lnprob_rows_def)

lemma values_at_threshold:
  assumes fr: "sample_frame d"
      and k: "k < length (rows d)"
      and above: "list_all (\<lambda>r. lnprob r > threshold ar d) (take k (sorted_rows ar d))"
      and below: "lnprob (sorted_rows ar d ! k) \<le> threshold ar d"
      and names: "set names \<subseteq> set (butlast (columns d))"
  shows "SamplingResult_values ar names d
       = Inr (summary_joint ar names (butlast (columns d)) (sorted_rows ar d) k)"
proof -
  let ?rs = "sorted_rows ar d"
  let ?idx = "butlast (columns d)"
  let ?mp = "pars (?rs ! 0)"
  let ?up = "joint_scan max ?mp ?mp (drop (Suc k) ?rs)"
  let ?lo = "joint_scan min ?mp ?mp (drop (Suc k) ?rs)"
  have thr: "threshold ar d = fsub ar (lnprob_max ?rs) (1/2)"
    by (simp add: threshold_def sorted_rows_def)
  have "length ?rs = length (rows d)" by simp
  then have pos: "0 < length ?rs" using k by linarith
  then have ne: "?rs \<noteq> []" by (metis length_greater_0_conv)
  have hd0: "hd ?rs = ?rs ! 0" using ne by (simp add: hd_conv_nth)
  have "\<forall>j < k. lnprob (?rs ! j) > fsub ar (lnprob_max ?rs) (1/2)"
  proof (intro allI impI)
    fix j assume "j < k"
    then have "take k ?rs ! j = ?rs ! j" and "j < length (take k ?rs)" using k by simp_all
    then have "?rs ! j \<in> set (take k ?rs)" by (metis nth_mem)
    then show "lnprob (?rs ! j) > fsub ar (lnprob_max ?rs) (1/2)"
      using above by (simp add: list_all_iff thr)
  qed
  then have scan: "threshold_scan ar ?rs 0 = Inr k"
    using k below by (intro threshold_scan_first_not_above) (simp_all add: thr)
  have "?rs ! 0 \<in> set ?rs" using pos by (rule nth_mem)
  then have lmp: "length ?mp = length ?idx" using fr by (rule sample_frame_rows [rotated])
  have "list_all (\<lambda>r. length (pars r) = length ?mp) (drop (Suc k) ?rs)"
    using sample_frame_rows [OF fr] lmp by (auto simp: list_all_iff dest: in_set_dropD)
  then have lup: "length ?up = length ?idx" and llo: "length ?lo = length ?idx"
    using lmp by (simp_all add: length_joint_scan)
  have each: "uncertain_value_at ar ?idx ?mp ?up ?lo p =
      Inr (UncertainValue3 (series_at ?idx ?mp p)
             (fsub ar (series_at ?idx ?up p) (series_at ?idx ?mp p))
             (fsub ar (series_at ?idx ?mp p) (series_at ?idx ?lo p)))"
    if "p \<in> set names" for p
  proof -
    have "p \<in> set ?idx" using that names by auto
    then show ?thesis
      by (simp add: uncertain_value_at_def series_get_at lmp lup llo)
  qed
  have "SamplingResult_values ar names d
      = comprehension (uncertain_value_at ar ?idx ?mp ?up ?lo) names"
    using ne scan sample_frame_index [OF fr]
    by (simp add: SamplingResult_values_def Let_def find_bound_def find_bound_loop_joint_scan
          sorted_rows_def)
  also have "\<dots> = Inr (map (\<lambda>p. UncertainValue3 (series_at ?idx ?mp p)
             (fsub ar (series_at ?idx ?up p) (series_at ?idx ?mp p))
             (fsub ar (series_at ?idx ?mp p) (series_at ?idx ?lo p))) names)"
    using each by (rule comprehension_total)
  finally show ?thesis by (simp add: summary_joint_def Let_def hd0)
qed

lemmas eval_values = SamplingResult_values_def lnprob_rows_def lnprob_max_def
  threshold_scan.simps find_bound_def find_bound_loop.simps series_any_eq_def
  uncertain_value_at_def series_get_def UncertainValue3_def UncertainValue_init_def

lemmas eval_sorted = sorted_rows_def threshold_def sample_frame_def lnprob_rows_def lnprob_max_def

text \<open>
  C2, as the source has it. On a frame of samples whose sorted rows have a row at or
  below the threshold (the float \<open>Lmax - 0.5\<close>), with \<open>k\<close> the index of the first such
  row, \<open>_values\<close> takes \<open>mp\<close> from the top row and accumulates the bounds from row
  \<open>k + 1\<close> on by one scan for all parameters together: the scan goes on, updating
  every parameter's running maximum (minimum), while at least one parameter's bound still
  equals \<open>mp\<close> and rows remain. It returns, per name,
  \<open>UncertainValue(mp[p], upper[p] - mp[p], mp[p] - lower[p])\<close>. This holds for every
  rounding of the subtractions and every order of equal rows.
\<close>

theorem values_joint_scan:
  assumes "sample_frame d"
      and "k < length (rows d)"
      and "list_all (\<lambda>r. lnprob r > threshold ar d) (take k (sorted_rows ar d))"
      and "lnprob (sorted_rows ar d ! k) \<le> threshold ar d"
      and "set names \<subseteq> set (butlast (columns d))"
  shows "SamplingResult_values ar names d
       = Inr (summary_joint ar names (butlast (columns d)) (sorted_rows ar d) k)"
  using assms by (rule values_at_threshold)

theorem values_joint_scan_witness:
  "SamplingResult_values exact_numerics [''a'', ''b''] two_parameter_table
     = Inr (summary_joint exact_numerics [''a'', ''b''] (butlast (columns two_parameter_table))
             (sorted_rows exact_numerics two_parameter_table) 1)
   \<and> summary_joint exact_numerics [''a'', ''b''] (butlast (columns two_parameter_table))
             (sorted_rows exact_numerics two_parameter_table) 1
     = [\<lparr>uv_value = 0, uv_plus = 2, uv_minus = Some 0, uv_n_sigma = 1\<rparr>,
        \<lparr>uv_value = 0, uv_plus = 0, uv_minus = Some 0, uv_n_sigma = 1\<rparr>]"
proof -
  have "SamplingResult_values exact_numerics [''a'', ''b''] two_parameter_table
     = Inr (summary_joint exact_numerics [''a'', ''b''] (butlast (columns two_parameter_table))
             (sorted_rows exact_numerics two_parameter_table) 1)"
    by (rule values_joint_scan) (simp_all add: two_parameter_table_def eval_sorted)
  moreover have "summary_joint exact_numerics [''a'', ''b''] (butlast (columns two_parameter_table))
             (sorted_rows exact_numerics two_parameter_table) 1
     = [\<lparr>uv_value = 0, uv_plus = 2, uv_minus = Some 0, uv_n_sigma = 1\<rparr>,
        \<lparr>uv_value = 0, uv_plus = 0, uv_minus = Some 0, uv_n_sigma = 1\<rparr>]"
    by (simp add: summary_joint_def two_parameter_table_def eval_sorted series_any_eq_def
          series_at_def UncertainValue3_def UncertainValue_init_def)
  ultimately show ?thesis by simp
qed

text \<open>
  The claim as worded fails on a table with two parameters: the source keeps raising the
  bound of parameter \<open>a\<close> (to 2) after it has left \<open>mp\<close>, because parameter \<open>b\<close> still
  equals \<open>mp\<close>; scanning each parameter on its own stops \<open>a\<close> at 1.
\<close>

theorem values_independent_scan_counterexample:
  "SamplingResult_values exact_numerics [''a'', ''b''] two_parameter_table
     = Inr [\<lparr>uv_value = 0, uv_plus = 2, uv_minus = Some 0, uv_n_sigma = 1\<rparr>,
            \<lparr>uv_value = 0, uv_plus = 0, uv_minus = Some 0, uv_n_sigma = 1\<rparr>]
   \<and> summary_independent exact_numerics [''a'', ''b''] (butlast (columns two_parameter_table))
        (sorted_rows exact_numerics two_parameter_table) 1
     = [\<lparr>uv_value = 0, uv_plus = 1, uv_minus = Some 0, uv_n_sigma = 1\<rparr>,
        \<lparr>uv_value = 0, uv_plus = 0, uv_minus = Some 0, uv_n_sigma = 1\<rparr>]"
  by (simp add: eval_values eval_sorted two_parameter_table_def summary_independent_def
        series_at_def)

subsection \<open>When the bounds stay at the most probable point\<close>

lemma length_map2_same: "length b = length v \<Longrightarrow> length (map2 f b v) = length b"
  by simp

lemma joint_scan_above:
  fixes f :: "real \<Rightarrow> real \<Rightarrow> real"
  assumes f: "\<And>x y. f x y = (if R x y then y else x)"
      and refl: "\<And>x. R x x"
      and trans: "\<And>x y z. R x y \<Longrightarrow> R y z \<Longrightarrow> R x z"
  shows "list_all (\<lambda>r. length (pars r) = length b) S \<Longrightarrow>
         list_all2 R b (joint_scan f mp b S)"
proof (induction S arbitrary: b)
  case Nil
  then show ?case by (simp add: list_all2_refl refl)
next
  case (Cons r S)
  let ?b = "map2 f b (pars r)"
  have len: "length (pars r) = length b" using Cons.prems by simp
  have step: "list_all2 R b ?b"
    using len by (auto simp: list_all2_conv_all_nth f refl)
  have "list_all (\<lambda>r. length (pars r) = length ?b) S" using Cons.prems len by simp
  then have "list_all2 R ?b (joint_scan f mp ?b S)" by (rule Cons.IH)
  with step have "list_all2 R b (joint_scan f mp ?b S)"
    by (rule list_all2_trans [rotated 1]) (rule trans)
  then show ?case by (simp add: list_all2_refl refl)
qed

lemma series_any_eq_same: "series_any_eq mp mp \<longleftrightarrow> mp \<noteq> []"
  by (cases mp) (simp_all add: series_any_eq_def)

lemma joint_scan_fixed:
  fixes f :: "real \<Rightarrow> real \<Rightarrow> real"
  assumes f: "\<And>x y. f x y = (if R x y then y else x)"
      and refl: "\<And>x. R x x"
      and trans: "\<And>x y z. R x y \<Longrightarrow> R y z \<Longrightarrow> R x z"
      and antisym: "\<And>x y. R x y \<Longrightarrow> R y x \<Longrightarrow> x = y"
      and total: "\<And>x y. R x y \<or> R y x"
  shows "list_all (\<lambda>r. length (pars r) = length mp) S \<Longrightarrow>
         joint_scan f mp mp S = mp \<longleftrightarrow> list_all (\<lambda>r. list_all2 R (pars r) mp) S"
proof (induction S)
  case Nil
  then show ?case by simp
next
  case (Cons r S)
  have len: "length (pars r) = length mp" and lenS: "list_all (\<lambda>r. length (pars r) = length mp) S"
    using Cons.prems by simp_all
  let ?b = "map2 f mp (pars r)"
  show ?case
  proof (cases "mp = []")
    case True
    then have "list_all (\<lambda>r. list_all2 R (pars r) mp) (r # S)"
      using Cons.prems by (simp add: list_all_iff)
    then show ?thesis using True by (simp add: series_any_eq_same)
  next
    case False
    then have js: "joint_scan f mp mp (r # S) = joint_scan f mp ?b S"
      by (simp add: series_any_eq_same)
    show ?thesis
    proof (cases "list_all2 R (pars r) mp")
      case True
      have "?b = mp"
      proof (rule nth_equalityI)
        show "length ?b = length mp" using len by simp
      next
        fix i assume "i < length ?b"
        then have i: "i < length mp" using len by simp
        then have "R (pars r ! i) (mp ! i)" using True by (simp add: list_all2_conv_all_nth)
        then have "f (mp ! i) (pars r ! i) = mp ! i"
          using antisym by (auto simp: f)
        then show "?b ! i = mp ! i" using i len by simp
      qed
      then show ?thesis using js True Cons.IH [OF lenS] by simp
    next
      case nb: False
      then obtain i where i: "i < length mp" "\<not> R (pars r ! i) (mp ! i)"
        using len by (auto simp: list_all2_conv_all_nth)
      then have Rm: "R (mp ! i) (pars r ! i)" using total by blast
      then have bi: "?b ! i = pars r ! i" using i len by (simp add: f)
      have "list_all (\<lambda>r. length (pars r) = length ?b) S" using lenS len by simp
      then have "list_all2 R ?b (joint_scan f mp ?b S)"
        using f refl trans by (intro joint_scan_above [where R = R]) auto
      then have "R (?b ! i) (joint_scan f mp ?b S ! i)"
        using i len by (simp add: list_all2_conv_all_nth)
      then have "joint_scan f mp ?b S \<noteq> mp"
        using i(2) bi by auto
      then show ?thesis using js nb by simp
    qed
  qed
qed

lemma joint_scan_max_fixed:
  assumes "list_all (\<lambda>r. length (pars r) = length mp) S"
  shows "joint_scan max mp mp S = mp \<longleftrightarrow> list_all (\<lambda>r. list_all2 (\<le>) (pars r) mp) S"
  using assms by (rule joint_scan_fixed [where R = "(\<le>)", rotated -1]) (auto simp: max_def)

lemma joint_scan_min_fixed:
  assumes "list_all (\<lambda>r. length (pars r) = length mp) S"
  shows "joint_scan min mp mp S = mp \<longleftrightarrow> list_all (\<lambda>r. list_all2 (\<ge>) (pars r) mp) S"
  using assms by (rule joint_scan_fixed [where R = "(\<ge>)", rotated -1]) (auto simp: min_def)

lemma both_orders_eq:
  "list_all2 (\<le>) v mp \<and> list_all2 (\<ge>) v mp \<longleftrightarrow> v = (mp :: real list)"
  by (auto simp: list_all2_conv_all_nth list_eq_iff_nth_eq intro: antisym)

lemma map_series_at:
  assumes "distinct idx" "length vals = length idx"
  shows "map (series_at idx vals) idx = vals"
proof (rule nth_equalityI)
  show "length (map (series_at idx vals) idx) = length vals" using assms by simp
next
  fix i assume "i < length (map (series_at idx vals) idx)"
  then have i: "i < length vals" using assms by simp
  have "map_of (zip idx vals) (idx ! i) = Some (vals ! i)"
    using assms i by (intro map_of_zip_nth) simp_all
  then show "map (series_at idx vals) idx ! i = vals ! i"
    using i assms by (simp add: series_at_def)
qed

lemma series_at_eq_iff:
  assumes "distinct idx" "length a = length idx" "length b = length idx"
  shows "(\<forall>p \<in> set idx. series_at idx a p = series_at idx b p) \<longleftrightarrow> a = b"
proof
  assume "\<forall>p \<in> set idx. series_at idx a p = series_at idx b p"
  then have "map (series_at idx a) idx = map (series_at idx b) idx" by simp
  then show "a = b" using assms by (simp add: map_series_at)
qed simp

text \<open>
  C3, as the source has it. On a frame of samples with several rows, one of which
  strictly exceeds all others in log-probability, and with a row at or below the
  threshold (the first of them at index \<open>k\<close> of the sorted rows): \<open>_values\<close> returns
  \<open>plus = 0\<close> and \<open>minus = 0\<close> for every parameter exactly when every row after row
  \<open>k\<close> holds the parameter values of the top row, as it does when row \<open>k\<close> is the
  last. The names are the parameter columns.
\<close>

theorem values_zero_width_iff:
  assumes fr: "sample_frame d"
      and multi: "2 \<le> length (rows d)"
      and dominant: "list_all (\<lambda>r. lnprob r < lnprob (hd (sorted_rows ar d)))
                        (tl (sorted_rows ar d))"
      and k: "k < length (rows d)"
      and above: "list_all (\<lambda>r. lnprob r > threshold ar d) (take k (sorted_rows ar d))"
      and below: "lnprob (sorted_rows ar d ! k) \<le> threshold ar d"
      and names: "set names = set (butlast (columns d))"
  shows "map_sum id (list_all (\<lambda>u. uv_plus u = 0 \<and> uv_minus u = Some 0))
           (SamplingResult_values ar names d)
       = Inr (list_all (\<lambda>r. pars r = pars (hd (sorted_rows ar d)))
                (drop (k + 1) (sorted_rows ar d)))"
proof -
  let ?rs = "sorted_rows ar d"
  let ?idx = "butlast (columns d)"
  let ?mp = "pars (hd ?rs)"
  let ?S = "drop (Suc k) ?rs"
  let ?up = "joint_scan max ?mp ?mp ?S"
  let ?lo = "joint_scan min ?mp ?mp ?S"
  have vals: "SamplingResult_values ar names d = Inr (summary_joint ar names ?idx ?rs k)"
    using fr k above below names by (intro values_at_threshold) simp_all
  have "length ?rs = length (rows d)" by simp
  then have "?rs \<noteq> []" using k by (metis length_greater_0_conv less_nat_zero_code neq0_conv)
  then have "hd ?rs \<in> set ?rs" by simp
  then have lmp: "length ?mp = length ?idx" using fr by (rule sample_frame_rows [rotated])
  have lenS: "list_all (\<lambda>r. length (pars r) = length ?mp) ?S"
    using sample_frame_rows [OF fr] lmp by (auto simp: list_all_iff dest: in_set_dropD)
  then have lup: "length ?up = length ?idx" and llo: "length ?lo = length ?idx"
    using lmp by (simp_all add: length_joint_scan)
  have di: "distinct ?idx" using fr by (simp add: sample_frame_def distinct_butlast)
  have "list_all (\<lambda>u. uv_plus u = 0 \<and> uv_minus u = Some 0) (summary_joint ar names ?idx ?rs k)
      \<longleftrightarrow> (\<forall>p \<in> set ?idx. series_at ?idx ?up p = series_at ?idx ?mp p
                          \<and> series_at ?idx ?mp p = series_at ?idx ?lo p)"
    by (simp add: summary_joint_def Let_def list_all_iff names UncertainValue3_def
          UncertainValue_init_def)
  also have "\<dots> \<longleftrightarrow> (\<forall>p \<in> set ?idx. series_at ?idx ?up p = series_at ?idx ?mp p)
                  \<and> (\<forall>p \<in> set ?idx. series_at ?idx ?lo p = series_at ?idx ?mp p)"
    by auto
  also have "\<dots> \<longleftrightarrow> ?up = ?mp \<and> ?lo = ?mp"
    using series_at_eq_iff [OF di lup lmp] series_at_eq_iff [OF di llo lmp] by simp
  also have "\<dots> \<longleftrightarrow> list_all (\<lambda>r. list_all2 (\<le>) (pars r) ?mp) ?S
                  \<and> list_all (\<lambda>r. list_all2 (\<ge>) (pars r) ?mp) ?S"
    using joint_scan_max_fixed [OF lenS] joint_scan_min_fixed [OF lenS] by simp
  also have "\<dots> \<longleftrightarrow> list_all (\<lambda>r. pars r = ?mp) ?S"
    using both_orders_eq by (auto simp: list_all_iff)
  finally show ?thesis using vals by simp
qed

theorem values_zero_width_witness:
  "map_sum id (list_all (\<lambda>u. uv_plus u = 0 \<and> uv_minus u = Some 0))
           (SamplingResult_values exact_numerics [''x''] dominant_zero_table)
       = Inr (list_all (\<lambda>r. pars r = pars (hd (sorted_rows exact_numerics dominant_zero_table)))
                (drop (1 + 1) (sorted_rows exact_numerics dominant_zero_table)))
   \<and> SamplingResult_values exact_numerics [''x''] dominant_zero_table
       = Inr [\<lparr>uv_value = 1, uv_plus = 0, uv_minus = Some 0, uv_n_sigma = 1\<rparr>]"
proof -
  have "map_sum id (list_all (\<lambda>u. uv_plus u = 0 \<and> uv_minus u = Some 0))
           (SamplingResult_values exact_numerics [''x''] dominant_zero_table)
       = Inr (list_all (\<lambda>r. pars r = pars (hd (sorted_rows exact_numerics dominant_zero_table)))
                (drop (1 + 1) (sorted_rows exact_numerics dominant_zero_table)))"
    by (rule values_zero_width_iff) (simp_all add: dominant_zero_table_def eval_sorted)
  moreover have "SamplingResult_values exact_numerics [''x''] dominant_zero_table
       = Inr [\<lparr>uv_value = 1, uv_plus = 0, uv_minus = Some 0, uv_n_sigma = 1\<rparr>]"
    by (simp add: eval_values dominant_zero_table_def)
  ultimately show ?thesis by simp
qed

text \<open>
  The claim as worded fails on a table of four rows whose top row strictly exceeds all
  others: the source returns \<open>plus = 2\<close> and \<open>minus = 1\<close>.
\<close>

theorem values_dominant_row_counterexample:
  "sorted_rows exact_numerics dominant_row_table
     = [\<lparr>pars = [1], lnprob = 0\<rparr>, \<lparr>pars = [2], lnprob = -1\<rparr>,
        \<lparr>pars = [3], lnprob = -2\<rparr>, \<lparr>pars = [0], lnprob = -3\<rparr>]
   \<and> SamplingResult_values exact_numerics [''x''] dominant_row_table
     = Inr [\<lparr>uv_value = 1, uv_plus = 2, uv_minus = Some 1, uv_n_sigma = 1\<rparr>]"
  by (simp add: eval_values eval_sorted dominant_row_table_def)

subsection \<open>UncertainValue\<close>

text \<open>
  C6, as the source has it. An \<open>UncertainValue\<close> constructed without \<open>minus\<close> stores
  \<open>None\<close> there (the docstring: "None if the uncertainty is symmetric"), not the value
  of \<open>plus\<close>; a \<open>minus\<close> that is given is stored as given, whatever \<open>plus\<close> is.
\<close>

theorem UncertainValue_minus_stored_as_given:
  "uv_minus (UncertainValue2 v p) = None
   \<and> uv_plus (UncertainValue2 v p) = p
   \<and> uv_minus (UncertainValue3 v p m) = Some m
   \<and> uv_plus (UncertainValue3 v p m) = p"
  by (simp add: UncertainValue2_def UncertainValue3_def UncertainValue_init_def)

theorem UncertainValue_minus_default_counterexample:
  "uv_minus (UncertainValue2 5 (1/5)) \<noteq> Some (uv_plus (UncertainValue2 5 (1/5)))"
  by (simp add: UncertainValue2_def UncertainValue_init_def)

section \<open>Properties of EmceeResult\<close>

subsection \<open>Slices and thinning\<close>

lemma length_every_nth:
  "0 < t \<Longrightarrow> length (every_nth t ys) = (length ys + t - 1) div t"
proof (induction t ys rule: every_nth.induct)
  case (1 n)
  then show ?case by simp
next
  case (2 n x xs)
  have "(length xs - (n - 1) + n - 1) div n = length xs div n"
  proof (cases "n - 1 \<le> length xs")
    case True
    then show ?thesis using 2(2) by simp
  next
    case False
    then show ?thesis by simp
  qed
  then show ?case using 2 by simp
qed

lemma nth_every_nth:
  "0 < t \<Longrightarrow> j < length (every_nth t ys) \<Longrightarrow> every_nth t ys ! j = ys ! (j * t)"
proof (induction t ys arbitrary: j rule: every_nth.induct)
  case (1 n)
  then show ?case by simp
next
  case (2 n x xs)
  show ?case
  proof (cases j)
    case 0
    then show ?thesis by simp
  next
    case (Suc i)
    then have i: "i < length (every_nth n (drop (n - 1) xs))" using 2(3) by simp
    then have "every_nth n (drop (n - 1) xs) ! i = drop (n - 1) xs ! (i * n)"
      using 2 by simp
    moreover have "i * n < length (drop (n - 1) xs)"
    proof -
      have "i < (length (drop (n - 1) xs) + n - 1) div n"
        using i 2(2) by (simp add: length_every_nth)
      then have "Suc i \<le> (length (drop (n - 1) xs) + n - 1) div n" by simp
      then have "Suc i * n \<le> (length (drop (n - 1) xs) + n - 1) div n * n"
        by (rule mult_le_mono1)
      also have "\<dots> \<le> length (drop (n - 1) xs) + n - 1"
        by (rule div_times_less_eq_dividend)
      finally have "i * n + n \<le> length (drop (n - 1) xs) + n - 1" by simp
      then have "i * n < length (drop (n - 1) xs)" using 2(2) by linarith
      then show ?thesis by simp
    qed
    ultimately show ?thesis using Suc 2(2) by (simp add: add.commute)
  qed
qed


lemma slice_indices_thinned:
  assumes "0 < t"
  shows "map ((!) xs) (slice_indices (length xs) (int b) (int t)) = thinned b t xs"
proof (cases "b \<le> length xs")
  case True
  let ?n = "length xs"
  have cnt: "nat ((int ?n - int b + int t - 1) div int t) = (?n - b + t - 1) div t"
  proof -
    have "int ?n - int b + int t - 1 = int (?n - b + t - 1)" using True assms by simp
    then have "(int ?n - int b + int t - 1) div int t = int ((?n - b + t - 1) div t)"
      by (simp only: zdiv_int)
    then show ?thesis by (simp only: nat_int)
  qed
  have idx: "slice_indices ?n (int b) (int t) = map (\<lambda>j. b + j * t) [0 ..< (?n - b + t - 1) div t]"
  proof -
    have "\<And>j. nat (int b + int j * int t) = b + j * t"
      by (metis nat_int of_nat_add of_nat_mult)
    then show ?thesis using True assms cnt by (simp add: slice_indices_def Let_def min_def)
  qed
  show ?thesis
  proof (rule nth_equalityI)
    show "length (map ((!) xs) (slice_indices ?n (int b) (int t))) = length (thinned b t xs)"
      using assms by (simp add: idx thinned_def length_every_nth)
  next
    fix j assume "j < length (map ((!) xs) (slice_indices ?n (int b) (int t)))"
    then have j: "j < (?n - b + t - 1) div t" by (simp add: idx)
    then have j': "j < length (every_nth t (drop b xs))" using assms by (simp add: length_every_nth)
    have "every_nth t (drop b xs) ! j = drop b xs ! (j * t)"
      using assms j' by (rule nth_every_nth)
    also have "\<dots> = xs ! (b + j * t)" using True by simp
    finally show "map ((!) xs) (slice_indices ?n (int b) (int t)) ! j = thinned b t xs ! j"
      using j by (simp add: idx thinned_def)
  qed
next
  case False
  then have "slice_indices (length xs) (int b) (int t) = []"
    using assms by (simp add: slice_indices_def Let_def min_def)
  then show ?thesis using False by (simp add: thinned_def)
qed

lemma slice_steps_thinned:
  assumes "1 \<le> t" "0 \<le> b"
  shows "slice_steps b t ws = Inr (map (thinned (nat b) (nat t)) ws)"
proof -
  have "map ((!) w) (slice_indices (length w) b t) = thinned (nat b) (nat t) w" for w :: "'a list"
    using slice_indices_thinned [of "nat t" w "nat b"] assms by simp
  then show ?thesis using assms by (simp add: slice_steps_def)
qed

lemma chunks_concat:
  assumes "0 < n"
  shows "list_all (\<lambda>v. length v = n) vs \<Longrightarrow> chunks n (concat vs) = vs"
proof (induction vs)
  case Nil
  then show ?case by (simp add: chunks.simps)
next
  case (Cons v vs)
  then have "v \<noteq> []" using assms by auto
  then show ?case using Cons assms by (subst chunks.simps) simp
qed

lemma length_concat_rect:
  "list_all (\<lambda>v. length v = n) vs \<Longrightarrow> length (concat vs) = n * length vs"
  by (induction vs) auto

lemma reshape_rows_concat:
  assumes "0 < n" "list_all (\<lambda>v. length v = n) vs"
  shows "reshape_rows n (concat vs) = Inr vs"
  using assms by (simp add: reshape_rows_def chunks_concat length_concat_rect)

lemma length_thinned:
  "0 < t \<Longrightarrow> length (thinned b t xs) = (length xs - b + t - 1) div t"
  by (simp add: thinned_def length_every_nth)

lemma set_every_nth: "set (every_nth t xs) \<subseteq> set xs"
proof (induction t xs rule: every_nth.induct)
  case (1 n)
  then show ?case by simp
next
  case (2 n x xs)
  then show ?case using set_drop_subset [of "n - 1" xs] by auto
qed

lemma set_thinned: "set (thinned b t xs) \<subseteq> set xs"
  using set_every_nth [of t "drop b xs"] set_drop_subset [of b xs] by (auto simp: thinned_def)

lemma length_concat_thinned:
  assumes "0 < t" "list_all2 (\<lambda>w l. length w = length l) ws ls"
  shows "length (concat (map (thinned b t) ws)) = length (concat (map (thinned b t) ls))"
  using assms(2) by (induction rule: list_all2_induct) (simp_all add: length_thinned assms(1))


lemma index_of_None_iff: "index_of x xs = None \<longleftrightarrow> x \<notin> set xs"
  by (induction xs) auto

lemma data_frame_stride:
  assumes stride: "thin_stride s thin = Inr t" and t: "1 \<le> t" and b: "0 \<le> burn_in"
      and names: "names \<noteq> []" and nolp: "''lnprob'' \<notin> set names"
      and rect: "list_all (\<lambda>w. list_all (\<lambda>v. length v = length names) w) (chain s)"
      and same: "list_all2 (\<lambda>w l. length w = length l) (chain s) (lnprobability s)"
  shows "EmceeResult_data_frame s names burn_in thin =
     Inr \<lparr>columns = names @ [''lnprob''],
          rows = map2 (\<lambda>v l. v @ [l])
                   (concat (map (thinned (nat burn_in) (nat t)) (chain s)))
                   (concat (map (thinned (nat burn_in) (nat t)) (lnprobability s)))\<rparr>"
proof -
  let ?ch = "map (thinned (nat burn_in) (nat t)) (chain s)"
  let ?lp = "map (thinned (nat burn_in) (nat t)) (lnprobability s)"
  have "list_all (\<lambda>v. length v = length names) (concat ?ch)"
    using rect set_thinned by (fastforce simp: list_all_iff)
  then have resh: "reshape_rows (length names) (concat (concat ?ch)) = Inr (concat ?ch)"
    using names by (intro reshape_rows_concat) simp_all
  have len: "length (concat ?lp) = length (concat ?ch)"
    using length_concat_thinned [OF _ same, of "nat t" "nat burn_in"] t by simp
  have idx: "index_of ''lnprob'' names = None" using nolp by (simp add: index_of_None_iff)
  show ?thesis
    using stride resh len idx
    by (simp add: EmceeResult_data_frame_def slice_steps_thinned [OF t b] assign_column_def)
qed

lemma py_max_Max: "xs \<noteq> [] \<Longrightarrow> py_max xs = Inr (Max (set xs))"
  using Max.set_eq_fold [of "hd xs" "tl xs"] by (simp add: py_max_def)

lemmas eval_frame = EmceeResult_data_frame_def thin_stride_def py_max_def py_int_def
  slice_steps_def slice_indices_def reshape_rows_def chunks.simps

lemma upt_numeral_eval: "[0..<numeral k] = [0..<pred_numeral k] @ [pred_numeral k]"
  by (simp add: numeral_eq_Suc)


text \<open>For a largest autocorrelation estimate of at least 1 the thinning is the one of the
  claim: the stride is its integer part, and every stride-th step after the burn-in is
  kept.\<close>

lemma data_frame_acor_thinning:
  assumes "acor s \<noteq> []" and "1 \<le> Max (set (acor s))" and "0 \<le> burn_in"
      and "names \<noteq> []" and "distinct names" and "''lnprob'' \<notin> set names"
      and "list_all (\<lambda>w. list_all (\<lambda>v. length v = length names) w) (chain s)"
      and "list_all2 (\<lambda>w l. length w = length l) (chain s) (lnprobability s)"
  shows "thin_stride s ThinAcor = Inr \<lfloor>Max (set (acor s))\<rfloor>
       \<and> EmceeResult_data_frame s names burn_in ThinAcor =
           Inr \<lparr>columns = names @ [''lnprob''],
                rows = map2 (\<lambda>v l. v @ [l])
                  (concat (map (thinned (nat burn_in) (nat \<lfloor>Max (set (acor s))\<rfloor>)) (chain s)))
                  (concat (map (thinned (nat burn_in) (nat \<lfloor>Max (set (acor s))\<rfloor>))
                             (lnprobability s)))\<rparr>"
proof -
  have stride: "thin_stride s ThinAcor = Inr \<lfloor>Max (set (acor s))\<rfloor>"
    using assms(1,2) by (simp add: thin_stride_def py_max_Max py_int_def)
  have "1 \<le> \<lfloor>Max (set (acor s))\<rfloor>" using assms(2) by linarith
  from data_frame_stride [OF stride this assms(3,4,6,7,8)] stride show ?thesis by simp
qed

lemma data_frame_thinning_example:
  "EmceeResult_data_frame thinning_sampler [''x''] 1 ThinAcor =
       Inr \<lparr>columns = [''x'', ''lnprob''],
            rows = [[2, - 1], [4, - 3], [7, - 6], [9, - 8]]\<rparr>"
  by (simp add: eval_frame assign_column_def thinning_sampler_def upt_numeral_eval)

text \<open>
  C7, on the code. With the default \<open>thin = 'acor'\<close> and a largest autocorrelation
  estimate below 1, \<open>int(max(acor))\<close> is 0 and the slice \<open>[burn_in::0]\<close> raises
  ValueError: no data frame is returned and no step is retained.
\<close>

theorem data_frame_acor_below_one_raises:
  "thin_stride short_acor_sampler ThinAcor = Inr 0
   \<and> EmceeResult_data_frame short_acor_sampler [''x''] 0 ThinAcor = Inl ValueError"
  by (simp add: eval_frame short_acor_sampler_def)

subsection \<open>The most probable point\<close>

lemma every_nth_one: "every_nth (Suc 0) xs = xs"
  by (induction xs) simp_all

lemma thinned_0_1: "thinned 0 (Suc 0) xs = xs"
  by (simp add: thinned_def every_nth_one)

lemma zip_concat:
  "list_all2 (\<lambda>x y. length x = length y) xs ys \<Longrightarrow>
     zip (concat xs) (concat ys) = concat (map2 zip xs ys)"
  by (induction rule: list_all2_induct) simp_all

lemma length_concat_same:
  "list_all2 (\<lambda>x y. length x = length y) xs ys \<Longrightarrow> length (concat xs) = length (concat ys)"
  by (induction rule: list_all2_induct) simp_all


lemma constant_columns:
  assumes "vs \<noteq> []" "\<forall>v \<in> set vs. v = v0"
  shows "\<not> list_ex (\<lambda>c. Min (set c) \<noteq> Max (set c)) (transpose vs)"
proof -
  have nth: "\<And>j. j < length vs \<Longrightarrow> vs ! j = v0" using assms(2) by simp
  have tr: "transpose vs = map (\<lambda>i. map (\<lambda>j. vs ! j ! i) [0..<length vs]) [0..<length v0]"
    using assms(1) by (intro transpose_rectangle) (simp_all add: nth)
  have "Min (set c) = Max (set c)" if "c \<in> set (transpose vs)" for c
  proof -
    from that tr obtain i where c: "c = map (\<lambda>j. vs ! j ! i) [0..<length vs]" by auto
    have "set c = {v0 ! i}"
    proof -
      have "set c \<subseteq> {v0 ! i}" unfolding c using nth by auto
      moreover have "set c \<noteq> {}" using assms(1) c by simp
      ultimately show ?thesis using subset_singletonD by fastforce
    qed
    then show ?thesis by simp
  qed
  then show ?thesis by (simp add: list_ex_iff)
qed

lemma map_thinned_id: "map (thinned 0 (Suc 0)) ws = ws"
  by (simp add: thinned_0_1 map_idI)

lemma list_ex_not_Nil: "list_ex P xs \<Longrightarrow> xs \<noteq> []"
  by (cases xs) simp_all


lemma map_snd_positions:
  assumes "list_all2 (\<lambda>w l. length w = length l) (chain s) (lnprobability s)"
  shows "map snd (positions s) = concat (lnprobability s)"
proof -
  have "positions s = zip (concat (chain s)) (concat (lnprobability s))"
    by (simp add: positions_def zip_concat [OF assms])
  then show ?thesis using length_concat_same [OF assms] by simp
qed

lemma data_frame_unthinned:
  assumes names: "names \<noteq> []" and nolp: "''lnprob'' \<notin> set names"
      and rect: "list_all (\<lambda>w. list_all (\<lambda>v. length v = length names) w) (chain s)"
      and same: "list_all2 (\<lambda>w l. length w = length l) (chain s) (lnprobability s)"
  shows "EmceeResult_data_frame s names 0 ThinNone =
     Inr \<lparr>columns = names @ [''lnprob''], rows = map (\<lambda>(v, l). v @ [l]) (positions s)\<rparr>"
proof -
  have "EmceeResult_data_frame s names 0 ThinNone =
     Inr \<lparr>columns = names @ [''lnprob''],
          rows = map2 (\<lambda>v l. v @ [l])
                   (concat (map (thinned (nat 0) (nat 1)) (chain s)))
                   (concat (map (thinned (nat 0) (nat 1)) (lnprobability s)))\<rparr>"
    using names nolp rect same by (intro data_frame_stride) (simp_all add: thin_stride_def)
  then show ?thesis
    by (simp add: map_thinned_id positions_def zip_concat [OF same, symmetric])
qed

lemma positions_lengths:
  assumes rect: "list_all (\<lambda>w. list_all (\<lambda>v. length v = length names) w) (chain s)"
      and same: "list_all2 (\<lambda>w l. length w = length l) (chain s) (lnprobability s)"
      and mem: "(v, l) \<in> set (positions s)"
  shows "length v = length names"
proof -
  have "positions s = zip (concat (chain s)) (concat (lnprobability s))"
    by (simp only: positions_def zip_concat [OF same])
  then have "v \<in> set (concat (chain s))" using mem by (metis set_zip_leftD)
  then obtain w where "w \<in> set (chain s)" "v \<in> set w" by auto
  then show ?thesis using rect by (simp add: list_all_iff)
qed

lemma values_example_lnprob_parameter:
  "EmceeResult_data_frame collapsed_sampler [''lnprob''] 0 ThinNone
     = Inr \<lparr>columns = [''lnprob''], rows = [[0], [- 1]]\<rparr>
   \<and> EmceeResult_values exact_numerics collapsed_sampler [''lnprob''] = Inl KeyError"
  by (simp add: EmceeResult_values_def eval_frame assign_column_def eval_values
        collapsed_sampler_def)

text \<open>
  The summary of \<open>tied_sampler\<close>, whose two positions of maximal log-probability hold
  different vectors: whichever of the two the sort puts first, and however the threshold
  is rounded, the summary is one point of width zero.
\<close>

lemma keys_sort_values:
  "map (\<lambda>r. - lnprob r) (sort_values ar rs) = sort (map (\<lambda>r. - lnprob r) rs)"
proof -
  have "mset (map (\<lambda>r. - lnprob r) (sort_values ar rs)) = mset (map (\<lambda>r. - lnprob r) rs)"
    by (simp add: sort_values_def)
  moreover have "sorted (map (\<lambda>r. - lnprob r) (sort_values ar rs))"
    by (simp add: sort_values_def)
  ultimately show ?thesis by (rule properties_for_sort [symmetric])
qed

lemma threshold_at_zero: "- 1 < fsub ar 0 (1/2) \<and> fsub ar 0 (1/2) < 0"
proof -
  have "\<bar>fsub ar 0 (1/2) + 1/2\<bar> \<le> unit_roundoff / 2"
    using fsub_error_bound [of ar 0 "1/2"] by simp
  moreover have "unit_roundoff < 1 / 2" by (simp add: unit_roundoff_def)
  ultimately show ?thesis by linarith
qed

lemma tied_sampler_frame:
  "EmceeResult_data_frame tied_sampler [''x''] 0 ThinNone
     = Inr \<lparr>columns = [''x'', ''lnprob''], rows = [[1, 0], [2, 0], [0, - 1]]\<rparr>"
  by (simp add: eval_frame assign_column_def tied_sampler_def)

lemma tied_sampler_values:
  "EmceeResult_values ar tied_sampler [''x'']
     \<in> {Inr [\<lparr>uv_value = 1, uv_plus = 0, uv_minus = Some 0, uv_n_sigma = 1\<rparr>],
        Inr [\<lparr>uv_value = 2, uv_plus = 0, uv_minus = Some 0, uv_n_sigma = 1\<rparr>]}"
proof -
  let ?d = "\<lparr>columns = [''x'', ''lnprob''], rows = [[1, 0], [2, 0], [0, - 1]]\<rparr>"
  let ?R = "[\<lparr>pars = [1], lnprob = 0\<rparr>, \<lparr>pars = [2], lnprob = 0\<rparr>, \<lparr>pars = [0], lnprob = - 1\<rparr>]"
  let ?rs = "sorted_rows ar ?d"
  have rs: "?rs = sort_values ar ?R" by (simp add: sorted_rows_def lnprob_rows_def)
  have keys: "map (\<lambda>r. - lnprob r) ?rs = [0, 0, 1]"
    unfolding rs keys_sort_values by simp
  then have len: "length ?rs = 3" by (metis length_map length_Cons list.size(3) numeral_3_eq_3)
  have "\<exists>r0 r1 r2. ?rs = [r0, r1, r2]"
    using len unfolding numeral_3_eq_3 length_Suc_conv by auto
  then obtain r0 r1 r2 where split: "?rs = [r0, r1, r2]" by blast
  have lp: "lnprob r0 = 0" "lnprob r1 = 0" "lnprob r2 = - 1"
    using keys unfolding split by simp_all
  have "r0 \<in> set ?rs" unfolding split by simp
  then have "r0 \<in> set ?R" unfolding rs by simp
  then have r0: "pars r0 = [1] \<or> pars r0 = [2]" using lp(1) by auto
  have thr: "threshold ar ?d = fsub ar 0 (1/2)"
    by (simp add: threshold_def lnprob_rows_def lnprob_max_def)
  have vals: "SamplingResult_values ar [''x''] ?d
      = Inr (summary_joint ar [''x''] (butlast (columns ?d)) ?rs 2)"
  proof (rule values_at_threshold)
    show "sample_frame ?d" by (simp add: sample_frame_def)
    show "2 < length (rows ?d)" by simp
    show "list_all (\<lambda>r. lnprob r > threshold ar ?d) (take 2 ?rs)"
      unfolding thr split using lp threshold_at_zero [of ar] by (simp add: numeral_2_eq_2)
    show "lnprob (?rs ! 2) \<le> threshold ar ?d"
      unfolding thr split using lp threshold_at_zero [of ar] by simp
    show "set [''x''] \<subseteq> set (butlast (columns ?d))" by simp
  qed
  have "summary_joint ar [''x''] (butlast (columns ?d)) ?rs 2
      = [\<lparr>uv_value = hd (pars r0), uv_plus = 0, uv_minus = Some 0, uv_n_sigma = 1\<rparr>]"
    unfolding split using r0
    by (auto simp: summary_joint_def series_at_def UncertainValue3_def UncertainValue_init_def)
  then show ?thesis
    using r0 by (auto simp: EmceeResult_values_def tied_sampler_frame vals)
qed

text \<open>
  C8, as the source has it. When the chain has a position at or below the threshold
  (the float \<open>Lmax - 0.5\<close>) and all positions of maximal log-probability hold one
  parameter vector \<open>v0\<close>, the values of the summary of the unthinned table
  (\<open>values()\<close>) are \<open>v0\<close> and \<open>most_probable_values()\<close> returns \<open>v0\<close>. The
  arrays are rectangular, with one value per name; the names are distinct and none is
  \<open>lnprob\<close>.
\<close>

theorem values_agree_with_most_probable:
  assumes names: "names \<noteq> []" "distinct names" "''lnprob'' \<notin> set names"
      and rect: "list_all (\<lambda>w. list_all (\<lambda>v. length v = length names) w) (chain s)"
      and same: "list_all2 (\<lambda>w l. length w = length l) (chain s) (lnprobability s)"
      and low: "list_ex (\<lambda>l. l \<le> fsub ar (Max (set (concat (lnprobability s)))) (1/2))
                  (concat (lnprobability s))"
      and one: "list_all (\<lambda>(v, l). l = Max (set (concat (lnprobability s))) \<longrightarrow> v = v0)
                  (positions s)"
  shows "map_sum id (map uv_value) (EmceeResult_values ar s names) = Inr v0
       \<and> most_probable_values s = Inr (Point v0)"
proof -
  let ?P = "positions s"
  let ?lps = "concat (lnprobability s)"
  let ?M = "Max (set ?lps)"
  let ?d = "\<lparr>columns = names @ [''lnprob''], rows = map (\<lambda>(v, l). v @ [l]) ?P\<rparr>"
  let ?R = "map (\<lambda>(v, l). \<lparr>pars = v, lnprob = l\<rparr>) ?P"
  let ?rs = "sorted_rows ar ?d"
  have frame: "EmceeResult_data_frame s names 0 ThinNone = Inr ?d"
    using names(1,3) rect same by (rule data_frame_unthinned)
  have plen: "length v = length names" if "(v, l) \<in> set ?P" for v l
    using rect same that by (rule positions_lengths)
  have sf: "sample_frame ?d"
    using names(2,3) plen by (auto simp: sample_frame_def list_all_iff)
  have split: "lnprob_rows ?d (length (columns ?d) - 1) = ?R"
    using plen by (auto simp: lnprob_rows_def nth_append)
  then have rs: "?rs = sort_values ar ?R" by (simp only: sorted_rows_def)
  have snd: "map snd ?P = ?lps" using same by (rule map_snd_positions)
  have lps: "map lnprob ?R = ?lps"
    using snd by (simp add: comp_def case_prod_unfold)
  then have M: "lnprob_max ?R = ?M" by (simp only: lnprob_max_def)
  have thr: "threshold ar ?d = fsub ar ?M (1/2)"
    by (simp only: threshold_def split M)
  have lps_ne: "?lps \<noteq> []" using low by (rule list_ex_not_Nil)
  then have R_ne: "?R \<noteq> []" using lps by (metis list.map_disc_iff)
  have set_rs: "set ?rs = set ?R" by (simp only: rs set_sort_values)
  have len_rs: "length ?rs = length ?R" by (simp only: rs length_sort_values)
  have at_max: "pars r = v0" if "r \<in> set ?R" "lnprob r = ?M" for r
    using that one by (auto simp: list_all_iff)
  \<comment> \<open>the top row\<close>
  have pos: "0 < length ?rs" using R_ne len_rs by simp
  then have top_mem: "?rs ! 0 \<in> set ?R" using set_rs nth_mem by blast
  have "lnprob (?rs ! 0) = ?M" using sort_values_head_max [OF R_ne] M rs by simp
  then have top: "pars (?rs ! 0) = v0" using top_mem by (rule at_max [rotated])
  have "length (pars (?rs ! 0)) = length names" using top_mem plen by auto
  then have lv0: "length v0 = length names" using top by simp
  \<comment> \<open>the threshold index\<close>
  have set_lps: "set ?lps = lnprob ` set ?R"
    by (simp only: lps [symmetric] set_map)
  obtain l where "l \<in> set ?lps" "l \<le> fsub ar ?M (1/2)"
    using low unfolding list_ex_iff by blast
  then obtain r where "r \<in> set ?R" "lnprob r \<le> fsub ar ?M (1/2)"
    unfolding set_lps by blast
  then have "r \<in> set ?rs" using set_rs by simp
  then obtain k0 where "k0 < length ?rs" "lnprob (?rs ! k0) \<le> fsub ar ?M (1/2)"
    using \<open>lnprob r \<le> fsub ar ?M (1/2)\<close> by (metis in_set_conv_nth)
  then have ex: "\<exists>k. k < length ?rs \<and> lnprob (?rs ! k) \<le> fsub ar ?M (1/2)" by blast
  define k where "k = (LEAST k. k < length ?rs \<and> lnprob (?rs ! k) \<le> fsub ar ?M (1/2))"
  have k: "k < length ?rs" "lnprob (?rs ! k) \<le> fsub ar ?M (1/2)"
    using LeastI_ex [OF ex] unfolding k_def by blast+
  have least: "\<not> lnprob (?rs ! j) \<le> fsub ar ?M (1/2)" if "j < k" for j
  proof
    assume "lnprob (?rs ! j) \<le> fsub ar ?M (1/2)"
    moreover have "j < length ?rs" using that k(1) by simp
    ultimately have "k \<le> j" unfolding k_def by (intro Least_le) simp
    then show False using that by simp
  qed
  have above: "list_all (\<lambda>r. lnprob r > threshold ar ?d) (take k ?rs)"
  proof -
    have "lnprob r > fsub ar ?M (1/2)" if "r \<in> set (take k ?rs)" for r
    proof -
      from that obtain j where "j < length (take k ?rs)" "take k ?rs ! j = r"
        by (metis in_set_conv_nth)
      then have "j < k" "?rs ! j = r" by simp_all
      then show ?thesis using least by fastforce
    qed
    then show ?thesis unfolding thr by (simp add: list_all_iff)
  qed
  have vals: "SamplingResult_values ar names ?d = Inr (summary_joint ar names names ?rs k)"
  proof -
    have "SamplingResult_values ar names ?d
        = Inr (summary_joint ar names (butlast (columns ?d)) (sorted_rows ar ?d) k)"
    proof (rule values_at_threshold)
      show "sample_frame ?d" by (rule sf)
      show "k < length (rows ?d)" using k(1) by simp
      show "list_all (\<lambda>r. lnprob r > threshold ar ?d) (take k (sorted_rows ar ?d))"
        by (rule above)
      show "lnprob (sorted_rows ar ?d ! k) \<le> threshold ar ?d"
        using k(2) unfolding thr .
      show "set names \<subseteq> set (butlast (columns ?d))" by simp
    qed
    then show ?thesis by simp
  qed
  have "?rs \<noteq> []" using pos by (metis length_greater_0_conv)
  then have "hd ?rs = ?rs ! 0" by (rule hd_conv_nth)
  then have hd: "pars (hd ?rs) = v0" using top by (simp only:)
  have "map uv_value (summary_joint ar names names ?rs k) = map (series_at names v0) names"
    unfolding summary_joint_def Let_def hd
    by (simp add: UncertainValue3_def UncertainValue_init_def comp_def)
  also have "\<dots> = v0" using names(2) lv0 by (intro map_series_at) simp_all
  finally have part1: "map_sum id (map uv_value) (EmceeResult_values ar s names) = Inr v0"
    by (simp add: EmceeResult_values_def frame vals)
  \<comment> \<open>the position of maximal log-probability, read off the chain\<close>
  let ?vs = "map fst (filter (\<lambda>(v, l). l = ?M) ?P)"
  have "?M \<in> set ?lps" using lps_ne by (intro Max_in) simp_all
  then have "?M \<in> snd ` set ?P" by (simp only: snd [symmetric] set_map)
  then obtain v where "(v, ?M) \<in> set ?P" by force
  then have vs_ne: "?vs \<noteq> []" by (auto simp: filter_empty_conv)
  have all_v0: "\<forall>v \<in> set ?vs. v = v0" using one by (auto simp: list_all_iff)
  have "\<not> list_ex (\<lambda>c. Min (set c) \<noteq> Max (set c)) (transpose ?vs)"
    using vs_ne all_v0 by (rule constant_columns)
  moreover have "?vs ! 0 = v0" using vs_ne all_v0 by (metis length_greater_0_conv nth_mem)
  ultimately have part2: "most_probable_values s = Inr (Point v0)"
    using lps_ne by (simp add: most_probable_values_def Let_def del: set_concat)
  from part1 part2 show ?thesis ..
qed

theorem values_agree_with_most_probable_witness:
  "map_sum id (map uv_value) (EmceeResult_values exact_numerics peaked_sampler [''a'', ''b''])
     = Inr [1, 5]
   \<and> most_probable_values peaked_sampler = Inr (Point [1, 5])"
  by (rule values_agree_with_most_probable)
     (simp_all add: peaked_sampler_def positions_def)

text \<open>
  The claim as worded fails when two positions of maximal log-probability hold
  different vectors: \<open>most_probable_values\<close> returns both (after its warning that the
  output will be two dimensional), the summary reports one point, the one that the sort
  has put first.
\<close>

theorem values_tied_maximum_counterexample:
  "most_probable_values tied_sampler = Inr (Points [[1], [2]])
   \<and> (\<forall>ar. EmceeResult_values ar tied_sampler [''x'']
        \<in> {Inr [\<lparr>uv_value = 1, uv_plus = 0, uv_minus = Some 0, uv_n_sigma = 1\<rparr>],
           Inr [\<lparr>uv_value = 2, uv_plus = 0, uv_minus = Some 0, uv_n_sigma = 1\<rparr>]})"
  using tied_sampler_values
  by (simp add: most_probable_values_def positions_def tied_sampler_def)

section \<open>Properties of saving and loading\<close>

text \<open>
  C5, on the code. \<open>SamplingResult.load\<close> of a file that \<open>save\<close> has written reads
  the sample table and returns \<open>None\<close>: no \<open>SamplingResult\<close>, no table, no model.
\<close>

theorem load_after_save_returns_None:
  "SamplingResult_load (SamplingResult_save yaml_dump self filename fs) filename = Inr None"
  by (simp add: SamplingResult_load_def SamplingResult_save_def SamplingResult_save_frame_def
        read_hdf_def put_def Let_def)

text \<open>The function \<open>load_sampling\<close> of the module does restore both, on a file that
  \<open>save\<close> has created and a model that \<open>yaml\<close> reads back.\<close>

lemma load_sampling_after_save:
  assumes "fs filename = None" "yaml_load (yaml_dump (model self)) = Inr (model self)"
  shows "load_sampling yaml_load (SamplingResult_save yaml_dump self filename fs) filename
       = Inr \<lparr>samples = samples self, model = model self\<rparr>"
  using assms
  by (simp add: load_sampling_def SamplingResult_save_def SamplingResult_save_frame_def
        read_hdf_single_def put_def Let_def)

section \<open>Properties of subset tempering\<close>

subsection \<open>The fractions\<close>

lemma length_linspace [simp]: "length (linspace ar a b n) = n"
  by (auto simp: linspace_def)

lemma hd_linspace: "0 < n \<Longrightarrow> hd (linspace ar a b n) = a"
  by (simp add: linspace_def)

lemma last_linspace: "1 < n \<Longrightarrow> last (linspace ar a b n) = b"
  by (simp add: linspace_def)

text \<open>
  C1, on the code. For at least one stage the sequence has \<open>stages + 1\<close> elements, and
  its end points are round trips: the first is \<open>10 ** log10(min_pixels) / N\<close> and the
  last \<open>10 ** log10(max_pixels) / N\<close>, as floats. Where the round trip of
  \<open>max_pixels = N\<close> comes out above \<open>N\<close>, the last fraction is above 1.
\<close>

theorem fractions_end_points:
  assumes "1 \<le> stages"
  shows "length (fractions ar min_pixels max_pixels stages n_pixels) = stages + 1
       \<and> hd (fractions ar min_pixels max_pixels stages n_pixels)
           = fdiv ar (pow10 ar (log10 ar (real_of_int min_pixels))) (real n_pixels)
       \<and> last (fractions ar min_pixels max_pixels stages n_pixels)
           = fdiv ar (pow10 ar (log10 ar (real_of_int max_pixels))) (real n_pixels)"
proof -
  let ?ls = "linspace ar (log10 ar (real_of_int min_pixels)) (log10 ar (real_of_int max_pixels))
               (stages + 1)"
  have ne: "?ls \<noteq> []" by (metis length_linspace length_0_conv add_is_0 zero_neq_one)
  have "hd ?ls = log10 ar (real_of_int min_pixels)" by (rule hd_linspace) simp
  moreover have "last ?ls = log10 ar (real_of_int max_pixels)"
    using assms by (intro last_linspace) simp
  ultimately show ?thesis
    using ne by (simp add: fractions_def logspace_def hd_map last_map)
qed

theorem fractions_last_above_one:
  "last (fractions binary64_at_5 1 5 1 5) = 1 + 1 / 2 ^ 52
   \<and> 1 < last (fractions binary64_at_5 1 5 1 5)"
proof -
  have "last (fractions binary64_at_5 1 5 1 5)
      = fdiv binary64_at_5 (pow10 binary64_at_5 (log10 binary64_at_5 (real_of_int 5))) (real 5)"
    using fractions_end_points [of 1 binary64_at_5 1 5 5] by simp
  also have "\<dots> = 1 + 1 / 2 ^ 52"
    by (simp add: binary64_at_5_def exact_numerics_def)
  finally show ?thesis by simp
qed

text \<open>Without rounding the claim holds: the fractions are
  \<open>10^(lerp(log10(min_pixels), log10(max_pixels), i/stages)) / N\<close>, strictly
  increasing, the first above 0 and the last \<open>max_pixels / N\<close>, at most 1.\<close>

lemma linspace_exact_nth:
  assumes "1 \<le> k" "i \<le> k"
  shows "linspace exact_numerics a b (k + 1) ! i = lerp a b (real i / real k)"
proof -
  let ?f = "\<lambda>i. real i * ((b - a) / real k) + a"
  have ls: "linspace exact_numerics a b (k + 1) = a # map ?f [1..<k] @ [b]"
    using assms(1) by (simp add: linspace_def exact_numerics_def)
  consider "i = 0" | "0 < i" "i < k" | "i = k" using assms(2) by linarith
  then show ?thesis
  proof cases
    case 1
    then show ?thesis using ls by (simp add: lerp_def)
  next
    case 2
    then have "(a # map ?f [1..<k] @ [b]) ! i = (map ?f [1..<k] @ [b]) ! (i - 1)"
      by (simp add: nth_Cons')
    also have "\<dots> = map ?f [1..<k] ! (i - 1)"
    proof -
      have "i - 1 < length (map ?f [1..<k])" using 2 by simp
      then show ?thesis by (simp only: nth_append if_True)
    qed
    also have "\<dots> = ?f (1 + (i - 1))"
    proof -
      have "i - 1 < k - 1" using 2 by simp
      then show ?thesis by (simp only: nth_map_upt)
    qed
    also have "\<dots> = ?f i" using 2 by simp
    finally show ?thesis using ls by (simp add: lerp_def)
  next
    case 3
    have "(a # map ?f [1..<k] @ [b]) ! k = (map ?f [1..<k] @ [b]) ! (k - 1)"
      using assms(1) by (simp add: nth_Cons')
    also have "\<dots> = b"
    proof -
      have "length (map ?f [1..<k]) = k - 1" by simp
      then show ?thesis by (metis nth_append_length)
    qed
    finally show ?thesis using 3 assms(1) ls by (simp add: lerp_def)
  qed
qed

lemma fractions_exact_eq:
  assumes "1 \<le> stages"
  shows "fractions exact_numerics mn mx stages N
       = map (\<lambda>i. 10 powr lerp (log 10 (real_of_int mn)) (log 10 (real_of_int mx))
                        (real i / real stages) / real N) [0..<stages + 1]"
proof (rule nth_equalityI)
  show "length (fractions exact_numerics mn mx stages N)
      = length (map (\<lambda>i. 10 powr lerp (log 10 (real_of_int mn)) (log 10 (real_of_int mx))
                        (real i / real stages) / real N) [0..<stages + 1])"
    by (simp add: fractions_def logspace_def)
next
  fix i assume "i < length (fractions exact_numerics mn mx stages N)"
  then have i: "i \<le> stages" by (simp add: fractions_def logspace_def)
  then have "i < length (linspace exact_numerics (log 10 (real_of_int mn))
                           (log 10 (real_of_int mx)) (stages + 1))"
    by simp
  then have "fractions exact_numerics mn mx stages N ! i
      = 10 powr (linspace exact_numerics (log 10 (real_of_int mn)) (log 10 (real_of_int mx))
                   (stages + 1) ! i) / real N"
    by (simp add: fractions_def logspace_def exact_numerics_def del: length_linspace)
  also have "\<dots> = 10 powr lerp (log 10 (real_of_int mn)) (log 10 (real_of_int mx))
                        (real i / real stages) / real N"
    using linspace_exact_nth [OF assms i] by simp
  finally show "fractions exact_numerics mn mx stages N ! i
      = map (\<lambda>i. 10 powr lerp (log 10 (real_of_int mn)) (log 10 (real_of_int mx))
                        (real i / real stages) / real N) [0..<stages + 1] ! i"
    using i by (simp del: upt_Suc add: nth_map_upt)
qed

lemma fractions_exact_log_spaced:
  assumes "1 \<le> stages" and "1 \<le> min_pixels" and "min_pixels < max_pixels"
      and "max_pixels \<le> int n_pixels"
  shows "sorted_wrt (<) (fractions exact_numerics min_pixels max_pixels stages n_pixels)
       \<and> 0 < hd (fractions exact_numerics min_pixels max_pixels stages n_pixels)
       \<and> last (fractions exact_numerics min_pixels max_pixels stages n_pixels) \<le> 1"
proof -
  let ?a = "log 10 (real_of_int min_pixels)" and ?b = "log 10 (real_of_int max_pixels)"
  let ?f = "\<lambda>i. 10 powr lerp ?a ?b (real i / real stages) / real n_pixels"
  let ?fr = "fractions exact_numerics min_pixels max_pixels stages n_pixels"
  have N: "0 < real n_pixels" using assms by simp
  have eq: "?fr = map ?f [0..<stages + 1]" using assms(1) by (rule fractions_exact_eq)
  have ab: "?a < ?b" using assms by simp
  have mono: "?f i < ?f j" if "i < j" for i j
  proof -
    have "real i / real stages < real j / real stages"
      using that assms(1) by (simp add: divide_strict_right_mono)
    moreover have "0 < ?b - ?a" using ab by simp
    ultimately have "(?b - ?a) * (real i / real stages) < (?b - ?a) * (real j / real stages)"
      by (rule mult_strict_left_mono)
    then have "lerp ?a ?b (real i / real stages) < lerp ?a ?b (real j / real stages)"
      unfolding lerp_def by (rule add_strict_left_mono)
    then have "10 powr lerp ?a ?b (real i / real stages) < 10 powr lerp ?a ?b (real j / real stages)"
      by simp
    then show ?thesis using N by (simp add: divide_strict_right_mono)
  qed
  have sorted: "sorted_wrt (<) ?fr"
    unfolding eq by (simp add: sorted_wrt_iff_nth_less mono del: upt_Suc)
  have "hd ?fr = ?f 0" unfolding eq by (simp add: hd_map upt_conv_Cons del: upt_Suc)
  then have first: "0 < hd ?fr" using N by simp
  have "last ?fr = ?f stages" unfolding eq by (simp add: last_map)
  also have "\<dots> = 10 powr ?b / real n_pixels" using assms(1) by (simp add: lerp_def)
  also have "\<dots> = real_of_int max_pixels / real n_pixels" using assms by simp
  also have "\<dots> \<le> 1" using assms N by simp
  finally have last: "last ?fr \<le> 1" .
  show ?thesis using sorted first last by simp
qed

subsection \<open>No stages\<close>

lemma fractions_no_stages:
  "fractions ar mn mx 0 N = [fdiv ar (pow10 ar (log10 ar (real_of_int mn))) (real N)]"
  by (simp add: fractions_def logspace_def linspace_def)

lemma map_state_Nil_iff: "fst (map_state g xs w) = [] \<longleftrightarrow> xs = []"
  by (cases xs) (auto simp: Let_def split: prod.splits)

lemma map_state_draws_ne:
  "xs \<noteq> [] \<Longrightarrow> map_state g xs w = (draws, w') \<Longrightarrow> draws \<noteq> []"
  using map_state_Nil_iff [of g xs w] by auto

text \<open>
  C9. With \<open>stages = 0\<close> (and data whose pixel count can be read, and a model with a
  parameter) \<open>subset_tempering\<close> does this and nothing else: it takes the subset of the
  data at the fraction \<open>10 ** log10(min_pixels) / N\<close> without \<open>preprocess\<close>, draws
  \<open>nwalkers\<close> values from the prior of every parameter of the model, and runs the
  sampler once, for \<open>final_len\<close> steps, from these positions; the result holds that
  sampler and the model. The refinement rule is not called. This is
  \<open>Emcee(...).sample(final_len)\<close> on the same arguments.
\<close>

theorem subset_tempering_no_stages:
  assumes "n_pixels_of env (case preprocess of None \<Rightarrow> (\<lambda>x. x) | Some f \<Rightarrow> f) dat = Inr N"
      and "parameters m \<noteq> []"
  shows "subset_tempering ar env m dat final_len nw min_pixels max_pixels thr 0 stage_len
           preprocess st
       = (let fraction = fdiv ar (pow10 ar (log10 ar (real_of_int min_pixels))) (real N);
              threads = (case thr of AllThreads \<Rightarrow> Some (cpu_count env) | Threads t \<Rightarrow> t);
              (dat', w1) =
                 (case dat of
                    Image d \<Rightarrow>
                      (let (d', w) = make_subset_data env d (Some fraction) (world st)
                       in (Image d', w))
                  | Frames ds \<Rightarrow>
                      (let (ds', w) = map_state (\<lambda>d. make_subset_data env d (Some fraction)) ds
                                        (world st)
                       in (Frames ds', w)));
              (draws, w2) = map_state (\<lambda>p. sample_prior env p nw) (parameters m) w1;
              (smp, w3) =
                 run_mcmc env
                   \<lparr>emcee_model = m,
                    n_frames = (case dat of Image d \<Rightarrow> 1 | Frames ds \<Rightarrow> length ds),
                    emcee_data = dat', nwalkers = nw, threads = threads\<rparr>
                   (transpose draws) final_len w2
          in Inr (\<lparr>result_sampler = smp, result_model = m\<rparr>,
                  \<lparr>world = w3, mcmc_runs = mcmc_runs st + 1, prior_updates = prior_updates st\<rparr>))
       \<and> subset_tempering ar env m dat final_len nw min_pixels max_pixels thr 0 stage_len
           preprocess st
       = (let (emcee, st1) =
                Emcee_init env m dat nw
                  (Some (fdiv ar (pow10 ar (log10 ar (real_of_int min_pixels))) (real N)))
                  (case thr of AllThreads \<Rightarrow> Some (cpu_count env) | Threads t \<Rightarrow> t) None st
          in Emcee_sample env emcee final_len None st1)"
proof -
  let ?thr = "case thr of AllThreads \<Rightarrow> Some (cpu_count env) | Threads t \<Rightarrow> t"
  let ?f = "fdiv ar (pow10 ar (log10 ar (real_of_int min_pixels))) (real N)"
  have run: "subset_tempering ar env m dat final_len nw min_pixels max_pixels thr 0 stage_len
               preprocess st
       = (let (emcee, st1) = Emcee_init env m dat nw (Some ?f) ?thr None st
          in Emcee_sample env emcee final_len None st1)"
    using assms(1) by (simp add: subset_tempering_def fractions_no_stages Let_def)
  have ne: "draws \<noteq> []"
    if "map_state (\<lambda>p. sample_prior env p nw) (parameters m) w = (draws, w')" for w draws w'
    using assms(2) that by (rule map_state_draws_ne)
  have st: "st = \<lparr>world = world st, mcmc_runs = mcmc_runs st, prior_updates = prior_updates st\<rparr>"
    by simp
  have explicit: "(let (emcee, st1) = Emcee_init env m dat nw (Some ?f) ?thr None st
          in Emcee_sample env emcee final_len None st1)
       = (let fraction = ?f;
              threads = ?thr;
              (dat', w1) =
                 (case dat of
                    Image d \<Rightarrow>
                      (let (d', w) = make_subset_data env d (Some fraction) (world st)
                       in (Image d', w))
                  | Frames ds \<Rightarrow>
                      (let (ds', w) = map_state (\<lambda>d. make_subset_data env d (Some fraction)) ds
                                        (world st)
                       in (Frames ds', w)));
              (draws, w2) = map_state (\<lambda>p. sample_prior env p nw) (parameters m) w1;
              (smp, w3) =
                 run_mcmc env
                   \<lparr>emcee_model = m,
                    n_frames = (case dat of Image d \<Rightarrow> 1 | Frames ds \<Rightarrow> length ds),
                    emcee_data = dat', nwalkers = nw, threads = threads\<rparr>
                   (transpose draws) final_len w2
          in Inr (\<lparr>result_sampler = smp, result_model = m\<rparr>,
                  \<lparr>world = w3, mcmc_runs = mcmc_runs st + 1, prior_updates = prior_updates st\<rparr>))"
    by (cases st; cases dat)
       (auto simp: Emcee_init_def Emcee_sample_def make_guess_def vstack_T_def Let_def
             dest: ne split: prod.splits)
  from run explicit show ?thesis by simp
qed

lemmas eval_sched = example_env_def example_model_def initial_state_def collapsed_sampler_def
  Emcee_init_def Emcee_sample_def make_guess_def vstack_T_def EmceeResult_updated_priors_def
  EmceeResult_names_def prior_updated_def n_pixels_of_def

theorem subset_tempering_no_stages_witness:
  "fractions exact_numerics 1 4 0 4 = [1 / 4]
   \<and> subset_tempering exact_numerics example_env example_model (Image [0, 0, 0, 0]) 5 2 1 4
        AllThreads 0 3 None initial_state
     = Inr (\<lparr>result_sampler = collapsed_sampler, result_model = example_model\<rparr>,
            \<lparr>world = 3, mcmc_runs = 1, prior_updates = 0\<rparr>)"
proof -
  have n: "n_pixels_of example_env (case None of None \<Rightarrow> (\<lambda>x. x) | Some f \<Rightarrow> f)
             (Image [0, 0, 0, 0]) = Inr 4"
    by (simp add: n_pixels_of_def example_env_def)
  have p: "parameters example_model \<noteq> []" by (simp add: example_model_def)
  have f: "fractions exact_numerics 1 4 0 4 = [1 / 4]"
    by (simp add: fractions_no_stages exact_numerics_def)
  from subset_tempering_no_stages [OF n p, of exact_numerics 5 2 1 4 AllThreads 3 initial_state]
  have "subset_tempering exact_numerics example_env example_model (Image [0, 0, 0, 0]) 5 2 1 4
        AllThreads 0 3 None initial_state
     = Inr (\<lparr>result_sampler = collapsed_sampler, result_model = example_model\<rparr>,
            \<lparr>world = 3, mcmc_runs = 1, prior_updates = 0\<rparr>)"
    by (simp add: example_env_def example_model_def initial_state_def exact_numerics_def
          numeral_2_eq_2)
  with f show ?thesis by simp
qed

subsection \<open>A stage with a collapsed posterior\<close>

text \<open>
  C4, on the code. A preliminary stage whose chain has two rows, 1 apart in
  log-probability, is summarized with \<open>plus = minus = 0\<close>. \<open>updated_priors\<close> hands the
  summary to the refinement rule without looking at the widths and returns a prior with
  \<open>sd = 0\<close>; the loop of \<open>subset_tempering\<close> raises nothing and draws the next stage's
  walkers from it, all at one point.
\<close>

theorem updated_priors_zero_width:
  "EmceeResult_values exact_numerics collapsed_sampler [''x'']
     = Inr [\<lparr>uv_value = 1, uv_plus = 0, uv_minus = Some 0, uv_n_sigma = 1\<rparr>]
   \<and> EmceeResult_updated_priors exact_numerics example_env
       \<lparr>result_sampler = collapsed_sampler, result_model = example_model\<rparr> None
     = Inr [\<lparr>name = ''x'', mu = 1, sd = 0\<rparr>]
   \<and> stage_loop exact_numerics example_env example_model (Image [0, 0]) 2 None (\<lambda>x. x) 1 [1/2]
       None initial_state
     = Inr (Some [[1], [1]], \<lparr>world = 4, mcmc_runs = 1, prior_updates = 1\<rparr>)"
  by (simp add: eval_sched EmceeResult_values_def eval_frame assign_column_def eval_values
        numeral_2_eq_2)

end
